theory Spec2Isabelle
  imports Main "HOL-Library.Word" "HOL-Library.Multiset"
begin

section \<open>Data of dboom.c\<close>

text \<open>
  \<^verbatim>\<open>unsigned int\<close> is a 32-bit word: arithmetic wraps, \<open><\<close> and \<open>div\<close> are the unsigned
  ones. The conversion of an \<^verbatim>\<open>unsigned int\<close> to \<^verbatim>\<open>int\<close> is \<open>sint\<close>, the two's complement
  reading. An \<^verbatim>\<open>int\<close> whose value stays in range is an \<open>int\<close>. The \<^verbatim>\<open>int\<close> counter
  \<^verbatim>\<open>nrequests\<close> of \<^verbatim>\<open>stats()\<close>, which ends up converted to \<^verbatim>\<open>unsigned int\<close> for the
  division, is a word compared as signed; its increment past \<^verbatim>\<open>INT_MAX\<close>, undefined in
  C, wraps here, and the results about it keep the count below \<open>2 ^ 31\<close>.
\<close>

type_synonym uint = "32 word"

definition INT_MAX :: int where
  "INT_MAX = 2147483647"

definition EXIT_SUCCESS :: int where
  "EXIT_SUCCESS = 0"

definition EXIT_FAILURE :: int where
  "EXIT_FAILURE = 1"

definition DEFAULT_REQUESTS :: int where
  "DEFAULT_REQUESTS = 10"

definition DEFAULT_CONCURR :: int where
  "DEFAULT_CONCURR = 5"

definition DEFAULT_TIMEOUT :: int where
  "DEFAULT_TIMEOUT = 5000"

text \<open>
  \<^verbatim>\<open>struct reqstats\<close> is declared in dboom.h; the code reads and writes its two fields
  \<^verbatim>\<open>tm\<close> (printed with \<^verbatim>\<open>%ld\<close>) and \<^verbatim>\<open>http_code\<close> (printed with \<^verbatim>\<open>%d\<close>).
\<close>

record reqstats =
  tm :: int
  http_code :: int

definition reqstats_new :: reqstats where
  "reqstats_new = \<lparr>tm = 0, http_code = 0\<rparr>"

text \<open>The three channels of \<^verbatim>\<open>main()\<close> and the values sent over them.\<close>

datatype chan = Done_ch | Stats_ch | Stop_ch

datatype msg = Int_msg int | Stats_msg reqstats

text \<open>What \<^verbatim>\<open>hclose()\<close> is called on: \<^verbatim>\<open>pcoh[i]\<close>, \<^verbatim>\<open>stats_cor\<close>, or a channel.\<close>

datatype handle = Boom_co int | Stats_co | Channel chan

text \<open>
  Every call that leaves the process is an event of the trace, in program order:
  \<^item> \<open>Fprintf_zero n c\<close>, \<open>Fprintf_less n c\<close>, \<open>Fprintf_usage\<close>: the three messages on stderr;
  \<^item> \<open>Printf_banner url n c t\<close>: the "Running dboom" banner;
  \<^item> \<open>Go_stats v\<close> is \<^verbatim>\<open>go(stats(stats_ch, stop_ch, v))\<close>, \<open>Go_boom i n\<close> is the
    \<open>i\<close>-th \<^verbatim>\<open>go(boom(url, n, ntimeout, done_ch, stats_ch))\<close>;
  \<^item> \<open>Malloc k\<close> asks for \<open>k\<close> bytes; \<open>Chrecv\<close>, \<open>Chsend\<close>, \<open>Choose\<close> are the libdill
    calls, all with deadline -1;
  \<^item> \<open>Printf_verbose code t\<close> is \<^verbatim>\<open>printf("%d,%ld\n", rs.http_code, rs.tm)\<close>;
  \<^item> \<open>Printf_avg k a\<close> is
    \<^verbatim>\<open>printf("Avg response time for %d requests: %d ms\n", nrequests, total/nrequests)\<close>,
    with \<open>k\<close> and \<open>a\<close> the two values handed to \<^verbatim>\<open>%d\<close>.
\<close>

datatype event =
    Fprintf_zero uint uint
  | Fprintf_less uint uint
  | Fprintf_usage
  | Printf_banner string uint uint int
  | Chmake chan
  | Perror string
  | Time
  | Go_stats int
  | Malloc nat
  | Go_boom int uint
  | Chrecv chan
  | Chsend chan msg
  | Choose
  | Hclose handle
  | Free
  | Printf_runtime
  | MakeRequest string int
  | Printf_verbose int int
  | Printf_avg uint uint

text \<open>
  How a routine ends: \<open>Exit c\<close> is \<^verbatim>\<open>exit(c)\<close>, \<open>Returned\<close> the end of a coroutine,
  \<open>Blocked\<close> a call with deadline -1 that never returns, \<open>Undefined\<close> the signed overflow
  of a loop counter. A loop or a statement yields \<open>None\<close> when control goes on.
\<close>

datatype outcome = Exit int | Returned | Blocked | Undefined

type_synonym step = "event list \<times> outcome option"

fun prepend :: "event list \<Rightarrow> event list \<times> 'a \<Rightarrow> event list \<times> 'a" where
  "prepend es (tr, r) = (es @ tr, r)"

text \<open>Sequencing: the second part runs only when the first goes on.\<close>

fun andthen :: "step \<Rightarrow> step \<Rightarrow> step" where
  "andthen (es, None) k = prepend es k"
| "andthen (es, Some out) k = (es, Some out)"

text \<open>\<^verbatim>\<open>if(rc != 0) perror(m);\<close> after a call that returned \<open>rc\<close>.\<close>

definition report :: "int \<Rightarrow> string \<Rightarrow> event list" where
  "report rc m = (if rc \<noteq> 0 then [Perror m] else [])"

section \<open>The two loop shapes\<close>

text \<open>
  \<^verbatim>\<open>for(int i = n; i > 0; --i) body\<close>, used by the join barrier of \<^verbatim>\<open>main()\<close> and by
  \<^verbatim>\<open>boom()\<close>. The counter is an \<^verbatim>\<open>int\<close>.
\<close>

function for_down :: "(int \<Rightarrow> step) \<Rightarrow> int \<Rightarrow> step" where
  "for_down body i =
     (if i > 0 then andthen (body i) (for_down body (i - 1)) else ([], None))"
  by pat_completeness auto
termination
  by (relation "measure (\<lambda>(body, i). nat i)") auto

text \<open>
  \<^verbatim>\<open>for(int i = 0; i < nconcurr; ++i) body\<close>, used to launch and to close the
  \<^verbatim>\<open>boom()\<close> coroutines. \<^verbatim>\<open>nconcurr\<close> is unsigned, so \<^verbatim>\<open>i\<close> is converted to
  \<^verbatim>\<open>unsigned int\<close> for the comparison; \<^verbatim>\<open>++i\<close> at \<^verbatim>\<open>INT_MAX\<close> overflows.
\<close>

function for_up :: "(int \<Rightarrow> step) \<Rightarrow> uint \<Rightarrow> int \<Rightarrow> step" where
  "for_up body n i =
     (if (word_of_int i :: uint) < n then
        andthen (body i)
          (if INT_MAX \<le> i then ([], Some Undefined) else for_up body n (i + 1))
      else ([], None))"
  by pat_completeness auto
termination
  by (relation "measure (\<lambda>(body, n, i). nat (INT_MAX - i))") auto

section \<open>boom(): the worker\<close>

text \<open>
  What the worker's calls return: \<^verbatim>\<open>MakeRequest\<close> (req.h) is given \<^verbatim>\<open>rs\<close> and gives
  a return code and the new \<^verbatim>\<open>rs\<close>; each \<^verbatim>\<open>chsend\<close> gives a return code. The calls of an iteration are keyed by
  the value of the loop counter \<^verbatim>\<open>i\<close>. Every call of the worker is taken to return.
\<close>

record boom_env =
  MakeRequest_ret :: "int \<Rightarrow> reqstats \<Rightarrow> int \<times> reqstats"
  chsend_stats_rc :: "int \<Rightarrow> int"
  chsend_done_rc :: int

definition boom_body :: "boom_env \<Rightarrow> string \<Rightarrow> int \<Rightarrow> int \<Rightarrow> step" where
  "boom_body e url timeout i =
     (case MakeRequest_ret e i reqstats_new of
        (rc, rs) \<Rightarrow>
          (MakeRequest url timeout #
           (if rc = 0 then
              Chsend Stats_ch (Stats_msg rs)
              # report (chsend_stats_rc e i) ''Failed to send request stats''
            else []),
           None))"

definition boom :: "boom_env \<Rightarrow> string \<Rightarrow> uint \<Rightarrow> int \<Rightarrow> step" where
  "boom e url nreqs timeout =
     andthen (for_down (boom_body e url timeout) (sint nreqs))
       (Chsend Done_ch (Int_msg 1) # report (chsend_done_rc e) ''boom() - chsend() failed'',
        Some Returned)"

section \<open>stats(): the aggregator\<close>

text \<open>
  What one \<^verbatim>\<open>choose(clauses, 2, -1)\<close> returns: 0 with a value stored into \<^verbatim>\<open>stop\<close>,
  1 with a value stored into \<^verbatim>\<open>rs\<close>, or -1. The aggregator is given the list of what its
  successive calls return; when the list is used up the next call never returns.
\<close>

datatype choice = Choose_stop int | Choose_stats reqstats | Choose_error

record agg =
  nrequests :: uint
  total_sum :: uint
  stop :: int

definition agg_init :: agg where
  "agg_init = \<lparr>nrequests = 0, total_sum = 0, stop = 0\<rparr>"

fun stats_loop :: "int \<Rightarrow> choice list \<Rightarrow> agg \<Rightarrow> event list \<times> agg option" where
  "stats_loop verbose [] s =
     (if stop s = 0 then ([Choose], None) else ([], Some s))"
| "stats_loop verbose (c # cs) s =
     (if stop s = 0 then
        (case c of
           Choose_error \<Rightarrow>
             ([Choose, Perror ''Could not read from stop or stats channel''], Some s)
         | Choose_stop v \<Rightarrow> prepend [Choose] (stats_loop verbose cs (s\<lparr>stop := v\<rparr>))
         | Choose_stats rs \<Rightarrow>
             prepend
               (Choose # (if verbose \<noteq> 0 then [Printf_verbose (http_code rs) (tm rs)] else []))
               (stats_loop verbose cs
                  (s\<lparr>nrequests := nrequests s + 1, total_sum := total_sum s + word_of_int (tm rs)\<rparr>)))
      else ([], Some s))"

definition stats :: "int \<Rightarrow> int \<Rightarrow> choice list \<Rightarrow> step" where
  "stats ack_rc verbose cs =
     (case stats_loop verbose cs agg_init of
        (tr, None) \<Rightarrow> (tr, Some Blocked)
      | (tr, Some s) \<Rightarrow>
          (tr
           @ (if 0 <s nrequests s then [Printf_avg (nrequests s) (total_sum s div nrequests s)] else [])
           @ Chsend Stop_ch (Int_msg (stop s)) # report ack_rc ''stats() - chsend() failed'',
           Some Returned))"

section \<open>main(): the orchestrator\<close>

text \<open>
  \<^verbatim>\<open>atoi\<close> of the C library. The number a string denotes: leading white space, an
  optional sign, then decimal digits up to the first other character.
\<close>

definition isspace :: "char \<Rightarrow> bool" where
  "isspace c = (c \<in> set [CHR '' '', CHR 0x09, CHR 0x0A, CHR 0x0B, CHR 0x0C, CHR 0x0D])"

definition isdigit :: "char \<Rightarrow> bool" where
  "isdigit c = (48 \<le> (of_char c :: nat) \<and> (of_char c :: nat) \<le> 57)"

fun atoi_digits :: "int \<Rightarrow> string \<Rightarrow> int" where
  "atoi_digits acc [] = acc"
| "atoi_digits acc (c # cs) =
     (if isdigit c then atoi_digits (10 * acc + (of_char c - 48)) cs else acc)"

definition decimal_value :: "string \<Rightarrow> int" where
  "decimal_value s =
     (case dropWhile isspace s of
        [] \<Rightarrow> 0
      | c # cs \<Rightarrow>
          if c = CHR ''-'' then - atoi_digits 0 cs
          else if c = CHR ''+'' then atoi_digits 0 cs
          else atoi_digits 0 (c # cs))"

text \<open>
  C defines \<^verbatim>\<open>atoi\<close> only where that number fits an \<^verbatim>\<open>int\<close>. Beyond, this is the
  \<^verbatim>\<open>atoi\<close> of glibc and of the BSD libraries with a 64-bit \<^verbatim>\<open>long\<close>:
  \<^verbatim>\<open>(int) strtol(s, NULL, 10)\<close>, where \<^verbatim>\<open>strtol\<close> stops at \<^verbatim>\<open>LONG_MIN\<close> and
  \<^verbatim>\<open>LONG_MAX\<close> and the cast keeps the low 32 bits.
\<close>

definition LONG_MAX :: int where
  "LONG_MAX = 9223372036854775807"

definition LONG_MIN :: int where
  "LONG_MIN = - 9223372036854775808"

definition strtol :: "string \<Rightarrow> int" where
  "strtol s = max LONG_MIN (min LONG_MAX (decimal_value s))"

definition atoi :: "string \<Rightarrow> int" where
  "atoi s = sint (word_of_int (strtol s) :: uint)"

text \<open>
  The three getters return the \<^verbatim>\<open>int\<close> of \<^verbatim>\<open>atoi\<close> or the default; the first two
  convert it to \<^verbatim>\<open>unsigned int\<close> on return, which is reduction modulo \<open>2 ^ 32\<close>.
\<close>

definition getRequests :: "string option \<Rightarrow> uint" where
  "getRequests requests =
     word_of_int (case requests of Some s \<Rightarrow> atoi s | None \<Rightarrow> DEFAULT_REQUESTS)"

definition getConcurrentReqs :: "string option \<Rightarrow> uint" where
  "getConcurrentReqs concurr =
     word_of_int (case concurr of Some s \<Rightarrow> atoi s | None \<Rightarrow> DEFAULT_CONCURR)"

definition getTimeout :: "string option \<Rightarrow> int" where
  "getTimeout timeout = (case timeout of Some s \<Rightarrow> atoi s | None \<Rightarrow> DEFAULT_TIMEOUT)"

text \<open>
  What the calls of \<^verbatim>\<open>main()\<close> return. \<^verbatim>\<open>chmake\<close> and \<^verbatim>\<open>go\<close> return a handle,
  negative on failure; \<^verbatim>\<open>malloc\<close> returns NULL or not; the channel calls return a code,
  or never return (\<open>None\<close>) since their deadline is -1. The \<^verbatim>\<open>go(boom(...))\<close> of the
  launch loop is keyed by its counter \<^verbatim>\<open>i\<close>, the \<^verbatim>\<open>chrecv\<close> of the join loop by its
  counter \<^verbatim>\<open>i\<close>.
\<close>

record main_env =
  chmake_ret :: "chan \<Rightarrow> int"
  go_stats_ret :: int
  malloc_null :: bool
  go_boom_ret :: "int \<Rightarrow> int"
  chrecv_done_rc :: "int \<Rightarrow> int option"
  chsend_stop_rc :: "int option"
  chrecv_stop_rc :: "int option"
  hclose_rc :: "handle \<Rightarrow> int"

text \<open>\<^verbatim>\<open>perror(msg); exit(EXIT_FAILURE);\<close>\<close>

definition fatal :: "string \<Rightarrow> step" where
  "fatal m = ([Perror m], Some (Exit EXIT_FAILURE))"

definition usage :: step where
  "usage = ([Fprintf_usage], Some (Exit EXIT_FAILURE))"

definition validate :: "uint \<Rightarrow> uint \<Rightarrow> step" where
  "validate nreqs nconcurr =
     (if nreqs = 0 \<or> nconcurr = 0 then ([Fprintf_zero nreqs nconcurr], Some (Exit EXIT_FAILURE))
      else if nreqs < nconcurr then ([Fprintf_less nreqs nconcurr], Some (Exit EXIT_FAILURE))
      else ([], None))"

definition make_channels :: "main_env \<Rightarrow> step" where
  "make_channels e =
     prepend [Chmake Done_ch, Chmake Stats_ch, Chmake Stop_ch]
       (if chmake_ret e Done_ch < 0 \<or> chmake_ret e Stats_ch < 0 \<or> chmake_ret e Stop_ch < 0
        then fatal ''Could not create channel'' else ([], None))"

definition launch_stats :: "main_env \<Rightarrow> int \<Rightarrow> step" where
  "launch_stats e verbose =
     prepend [Time, Go_stats verbose]
       (if go_stats_ret e < 0 then fatal ''Could not start stats coroutine'' else ([], None))"

definition alloc_handles :: "main_env \<Rightarrow> uint \<Rightarrow> step" where
  "alloc_handles e nconcurr =
     prepend [Malloc (unat nconcurr * 4)]
       (if malloc_null e then fatal ''Could not allocate memory for coroutine handles''
        else ([], None))"

definition launch_body :: "main_env \<Rightarrow> uint \<Rightarrow> int \<Rightarrow> step" where
  "launch_body e share i =
     prepend [Go_boom i share]
       (if go_boom_ret e i < 0 then fatal ''Could not launch coroutine'' else ([], None))"

definition join_body :: "main_env \<Rightarrow> int \<Rightarrow> step" where
  "join_body e i =
     (case chrecv_done_rc e i of
        None \<Rightarrow> ([Chrecv Done_ch], Some Blocked)
      | Some rc \<Rightarrow>
          prepend [Chrecv Done_ch]
            (if rc \<noteq> 0 then fatal ''Could not receive on done_ch'' else ([], None)))"

definition stop_handshake :: "main_env \<Rightarrow> step" where
  "stop_handshake e =
     (case chsend_stop_rc e of
        None \<Rightarrow> ([Chsend Stop_ch (Int_msg 1)], Some Blocked)
      | Some rc \<Rightarrow>
          prepend (Chsend Stop_ch (Int_msg 1) # report rc ''Failed to send on stop_ch'')
            (case chrecv_stop_rc e of
               None \<Rightarrow> ([Chrecv Stop_ch], Some Blocked)
             | Some rc' \<Rightarrow>
                 (Chrecv Stop_ch # report rc' ''Failed to receive on stop_ch'', None)))"

definition hclose :: "main_env \<Rightarrow> handle \<Rightarrow> string \<Rightarrow> event list" where
  "hclose e h m = Hclose h # report (hclose_rc e h) m"

definition close_body :: "main_env \<Rightarrow> int \<Rightarrow> step" where
  "close_body e i = (hclose e (Boom_co i) ''Could not close boom coroutine'', None)"

definition cleanup :: "main_env \<Rightarrow> step" where
  "cleanup e =
     (hclose e Stats_co ''Could not close stats coroutine''
      @ hclose e (Channel Done_ch) ''Could not close done_ch''
      @ hclose e (Channel Stats_ch) ''Could not close stats_ch''
      @ hclose e (Channel Stop_ch) ''Could not close stop_ch''
      @ [Free, Time, Printf_runtime],
      Some (Exit EXIT_SUCCESS))"

text \<open>
  \<^verbatim>\<open>main()\<close> from the validation of the program arguments on, in four parts: everything
  up to the launch of the workers, the join barrier, the stop handshake, and the release
  of the resources.
\<close>

definition startup :: "main_env \<Rightarrow> string \<Rightarrow> uint \<Rightarrow> uint \<Rightarrow> int \<Rightarrow> int \<Rightarrow> step" where
  "startup e url nreqs nconcurr ntimeout verbose =
     andthen (validate nreqs nconcurr)
    (andthen ([Printf_banner url nreqs nconcurr ntimeout], None)
    (andthen (make_channels e)
    (andthen (launch_stats e verbose)
    (andthen (alloc_handles e nconcurr)
             (for_up (launch_body e (nreqs div nconcurr)) nconcurr 0)))))"

definition join_barrier :: "main_env \<Rightarrow> uint \<Rightarrow> step" where
  "join_barrier e nconcurr = for_down (join_body e) (sint nconcurr)"

definition teardown :: "main_env \<Rightarrow> uint \<Rightarrow> step" where
  "teardown e nconcurr = andthen (for_up (close_body e) nconcurr 0) (cleanup e)"

definition main_run :: "main_env \<Rightarrow> string \<Rightarrow> uint \<Rightarrow> uint \<Rightarrow> int \<Rightarrow> int \<Rightarrow> step" where
  "main_run e url nreqs nconcurr ntimeout verbose =
     andthen (startup e url nreqs nconcurr ntimeout verbose)
    (andthen (join_barrier e nconcurr)
    (andthen (stop_handshake e)
             (teardown e nconcurr)))"

text \<open>
  What \<^verbatim>\<open>getopt\<close> leaves behind: the arguments of \<^verbatim>\<open>-n\<close>, \<^verbatim>\<open>-c\<close>, \<^verbatim>\<open>-t\<close> when given,
  \<^verbatim>\<open>verbose\<close>, whether an option was not recognised, and \<^verbatim>\<open>argv[optind]\<close> when
  \<^verbatim>\<open>optind < argc\<close>.
\<close>

record args =
  opt_n :: "string option"
  opt_c :: "string option"
  opt_t :: "string option"
  opt_v :: int
  opt_unknown :: bool
  opt_url :: "string option"

definition main :: "main_env \<Rightarrow> args \<Rightarrow> step" where
  "main e a =
     (if opt_unknown a then usage
      else case opt_url a of
        None \<Rightarrow> usage
      | Some url \<Rightarrow>
          main_run e url (getRequests (opt_n a)) (getConcurrentReqs (opt_c a))
            (getTimeout (opt_t a)) (opt_v a))"

section \<open>Reading traces\<close>

text \<open>A worker's attempts are its calls of \<^verbatim>\<open>MakeRequest\<close>.\<close>

fun is_MakeRequest :: "event \<Rightarrow> bool" where
  "is_MakeRequest (MakeRequest url timeout) = True"
| "is_MakeRequest ev = False"

definition attempts :: "event list \<Rightarrow> nat" where
  "attempts tr = length (filter is_MakeRequest tr)"

text \<open>Sends by channel: a published result, a completion signal, a stop or acknowledgment.\<close>

fun sends_on :: "chan \<Rightarrow> event \<Rightarrow> bool" where
  "sends_on c (Chsend c' m) = (c = c')"
| "sends_on c ev = False"

fun is_Printf_verbose :: "event \<Rightarrow> bool" where
  "is_Printf_verbose (Printf_verbose code t) = True"
| "is_Printf_verbose ev = False"

fun is_Printf_avg :: "event \<Rightarrow> bool" where
  "is_Printf_avg (Printf_avg k a) = True"
| "is_Printf_avg ev = False"

text \<open>Teardown: closing a handle, freeing the handle array, printing the run time.\<close>

fun is_teardown :: "event \<Rightarrow> bool" where
  "is_teardown (Hclose h) = True"
| "is_teardown Free = True"
| "is_teardown Printf_runtime = True"
| "is_teardown ev = False"

text \<open>The workers a trace of \<^verbatim>\<open>main()\<close> launches, each with the count it is given.\<close>

fun launched :: "event list \<Rightarrow> (int \<times> uint) list" where
  "launched [] = []"
| "launched (Go_boom i n # tr) = (i, n) # launched tr"
| "launched (ev # tr) = launched tr"

text \<open>
  The attempts of a whole run: those of every launched worker, each run to its end, with
  \<open>envs i\<close> what the calls of worker \<open>i\<close> return.
\<close>

definition run_attempts :: "(int \<Rightarrow> boom_env) \<Rightarrow> string \<Rightarrow> int \<Rightarrow> event list \<Rightarrow> nat" where
  "run_attempts envs url timeout tr =
     sum_list (map (\<lambda>(i, n). attempts (fst (boom (envs i) url n timeout))) (launched tr))"

text \<open>
  What ends the loop of \<^verbatim>\<open>stats()\<close>: a failed \<^verbatim>\<open>choose\<close>, or a value other than 0 received
  into \<^verbatim>\<open>stop\<close>. The results the aggregator receives are those that arrive before that.
\<close>

fun ends_loop :: "choice \<Rightarrow> bool" where
  "ends_loop Choose_error = True"
| "ends_loop (Choose_stop v) = (v \<noteq> 0)"
| "ends_loop (Choose_stats rs) = False"

fun received :: "choice list \<Rightarrow> reqstats list" where
  "received [] = []"
| "received (Choose_stats rs # cs) = rs # received cs"
| "received (Choose_stop v # cs) = (if v = 0 then received cs else [])"
| "received (Choose_error # cs) = []"

definition echo :: "reqstats \<Rightarrow> event" where
  "echo rs = Printf_verbose (http_code rs) (tm rs)"

text \<open>A loop body run over the list of its counter values, for reasoning about both loops.\<close>

fun iterate :: "(int \<Rightarrow> step) \<Rightarrow> int list \<Rightarrow> step" where
  "iterate body [] = ([], None)"
| "iterate body (j # js) = andthen (body j) (iterate body js)"

text \<open>
  What the environment must grant for \<^verbatim>\<open>main()\<close> to get past each part: the three
  channels, the \<^verbatim>\<open>stats()\<close> coroutine and the handle array; every worker; every
  completion signal.
\<close>

definition resources_ok :: "main_env \<Rightarrow> bool" where
  "resources_ok e =
     (0 \<le> chmake_ret e Done_ch \<and> 0 \<le> chmake_ret e Stats_ch \<and> 0 \<le> chmake_ret e Stop_ch
      \<and> 0 \<le> go_stats_ret e \<and> \<not> malloc_null e)"

definition workers_ok :: "main_env \<Rightarrow> uint \<Rightarrow> bool" where
  "workers_ok e nconcurr = list_all (\<lambda>i. 0 \<le> go_boom_ret e i) [0..uint nconcurr - 1]"

definition signals_ok :: "main_env \<Rightarrow> uint \<Rightarrow> bool" where
  "signals_ok e nconcurr = list_all (\<lambda>i. chrecv_done_rc e i = Some 0) [1..uint nconcurr]"

text \<open>The kinds of event each part of \<^verbatim>\<open>main()\<close> can produce.\<close>

fun startup_event :: "event \<Rightarrow> bool" where
  "startup_event (Fprintf_zero n c) = True"
| "startup_event (Fprintf_less n c) = True"
| "startup_event (Printf_banner url n c t) = True"
| "startup_event (Chmake c) = True"
| "startup_event (Perror m) = True"
| "startup_event Time = True"
| "startup_event (Go_stats v) = True"
| "startup_event (Malloc k) = True"
| "startup_event (Go_boom i n) = True"
| "startup_event ev = False"

fun join_event :: "event \<Rightarrow> bool" where
  "join_event (Chrecv c) = (c = Done_ch)"
| "join_event (Perror m) = True"
| "join_event ev = False"

fun teardown_event :: "event \<Rightarrow> bool" where
  "teardown_event (Hclose h) = True"
| "teardown_event (Perror m) = True"
| "teardown_event Free = True"
| "teardown_event Time = True"
| "teardown_event Printf_runtime = True"
| "teardown_event ev = False"

text \<open>An environment in which every call of \<^verbatim>\<open>main()\<close> succeeds.\<close>

definition env_ok :: main_env where
  "env_ok =
     \<lparr>chmake_ret = (\<lambda>c. 3), go_stats_ret = 4, malloc_null = False, go_boom_ret = (\<lambda>i. 5 + i),
      chrecv_done_rc = (\<lambda>i. Some 0), chsend_stop_rc = Some 0, chrecv_stop_rc = Some 0,
      hclose_rc = (\<lambda>h. 0)\<rparr>"

text \<open>
  The same, but the receive of the acknowledgment fails; and the same, but both calls of
  the stop handshake fail.
\<close>

definition env_no_ack :: main_env where
  "env_no_ack = env_ok\<lparr>chrecv_stop_rc := Some (- 1)\<rparr>"

definition env_stop_broken :: main_env where
  "env_stop_broken = env_ok\<lparr>chsend_stop_rc := Some (- 1), chrecv_stop_rc := Some (- 1)\<rparr>"

text \<open>A worker all of whose requests succeed in 100 ms with status 200.\<close>

definition boom_env_ok :: boom_env where
  "boom_env_ok =
     \<lparr>MakeRequest_ret = (\<lambda>i rs. (0, rs\<lparr>tm := 100, http_code := 200\<rparr>)),
      chsend_stats_rc = (\<lambda>i. 0), chsend_done_rc = 0\<rparr>"

section \<open>Loops and sequencing\<close>

lemma report_0 [simp]: "report 0 m = []"
  by (simp add: report_def)

lemma filter_report [simp]: "\<not> P (Perror m) \<Longrightarrow> filter P (report rc m) = []"
  by (simp add: report_def)

lemma set_report: "ev \<in> set (report rc m) \<Longrightarrow> ev = Perror m"
  by (simp add: report_def split: if_splits)

lemma fst_prepend [simp]: "fst (prepend es p) = es @ fst p"
  by (cases p) simp

lemma snd_prepend [simp]: "snd (prepend es p) = snd p"
  by (cases p) simp

lemma fst_andthen: "fst (andthen a k) = (if snd a = None then fst a @ fst k else fst a)"
  by (cases a; cases "snd a") auto

lemma snd_andthen: "snd (andthen a k) = (if snd a = None then snd k else snd a)"
  by (cases a; cases "snd a") auto

lemma for_down_nonpos: "i \<le> 0 \<Longrightarrow> for_down body i = ([], None)"
  by simp

lemma andthen_alt:
  "andthen a k = (if snd a = None then prepend (fst a) k else a)"
  by (cases a; cases "snd a") auto

lemma for_down_pos:
  "0 < i \<Longrightarrow> for_down body i =
     (if snd (body i) = None then prepend (fst (body i)) (for_down body (i - 1)) else body i)"
  by (simp add: andthen_alt)

declare for_down.simps [simp del]
declare for_up.simps [simp del]

lemma for_up_done: "\<not> (word_of_int i :: uint) < n \<Longrightarrow> for_up body n i = ([], None)"
  by (simp add: for_up.simps)

lemma for_up_step:
  "(word_of_int i :: uint) < n \<Longrightarrow> for_up body n i =
     (if snd (body i) = None then
        (if INT_MAX \<le> i then (fst (body i), Some Undefined)
         else prepend (fst (body i)) (for_up body n (i + 1)))
      else body i)"
  by (subst for_up.simps) (simp add: andthen_alt)

text \<open>Events of a loop are events of its bodies.\<close>

lemma for_down_events:
  "ev \<in> set (fst (for_down body i)) \<Longrightarrow> \<exists>j. 0 < j \<and> j \<le> i \<and> ev \<in> set (fst (body j))"
proof (induction body i rule: for_down.induct)
  case (1 body i)
  show ?case
  proof (cases "0 < i")
    case False
    with "1.prems" show ?thesis by (simp add: for_down_nonpos)
  next
    case True
    show ?thesis
    proof (cases "snd (body i) = None")
      case False
      with True "1.prems" show ?thesis by (auto simp: for_down_pos)
    next
      case n: True
      then obtain es where b: "body i = (es, None)" by (cases "body i") auto
      from True n "1.prems" have "ev \<in> set (fst (body i)) \<or> ev \<in> set (fst (for_down body (i - 1)))"
        by (auto simp: for_down_pos)
      then show ?thesis
      proof
        assume "ev \<in> set (fst (body i))" with True show ?thesis by auto
      next
        assume "ev \<in> set (fst (for_down body (i - 1)))"
        from "1.IH"[OF True this] obtain j where "0 < j" "j \<le> i - 1" "ev \<in> set (fst (body j))" by auto
        then show ?thesis by (intro exI[of _ j]) auto
      qed
    qed
  qed
qed

lemma for_up_events:
  "ev \<in> set (fst (for_up body n i)) \<Longrightarrow> \<exists>j. i \<le> j \<and> ev \<in> set (fst (body j))"
proof (induction body n i rule: for_up.induct)
  case (1 body n i)
  show ?case
  proof (cases "(word_of_int i :: uint) < n")
    case False
    with "1.prems" show ?thesis by (simp add: for_up_done)
  next
    case True
    show ?thesis
    proof (cases "snd (body i) = None")
      case False
      with True "1.prems" show ?thesis by (auto simp: for_up_step)
    next
      case n: True
      then obtain es where b: "body i = (es, None)" by (cases "body i") auto
      show ?thesis
      proof (cases "INT_MAX \<le> i")
        case True
        with \<open>word_of_int i < n\<close> n "1.prems" show ?thesis by (auto simp: for_up_step)
      next
        case False
        from \<open>word_of_int i < n\<close> False n "1.prems"
        have "ev \<in> set (fst (body i)) \<or> ev \<in> set (fst (for_up body n (i + 1)))"
          by (auto simp: for_up_step)
        then show ?thesis
        proof
          assume "ev \<in> set (fst (body i))" then show ?thesis by auto
        next
          assume "ev \<in> set (fst (for_up body n (i + 1)))"
          from "1.IH"[OF \<open>word_of_int i < n\<close> False this]
          obtain j where "i + 1 \<le> j" "ev \<in> set (fst (body j))" by auto
          then show ?thesis by (intro exI[of _ j]) auto
        qed
      qed
    qed
  qed
qed

lemma word_of_int_less:
  "0 \<le> i \<Longrightarrow> i \<le> INT_MAX \<Longrightarrow> ((word_of_int i :: uint) < n) = (i < uint n)"
  by (simp add: word_less_alt uint_word_of_int INT_MAX_def)

lemma for_down_None_iff:
  "(snd (for_down body i) = None) = (\<forall>j. 0 < j \<and> j \<le> i \<longrightarrow> snd (body j) = None)"
proof (induction body i rule: for_down.induct)
  case (1 body i)
  show ?case
  proof (cases "0 < i")
    case False
    then show ?thesis by (auto simp: for_down_nonpos)
  next
    case True
    show ?thesis
    proof (cases "snd (body i) = None")
      case False
      with True show ?thesis by (auto simp: for_down_pos)
    next
      case n: True
      then obtain es where b: "body i = (es, None)" by (cases "body i") auto
      have "(snd (for_down body i) = None) = (snd (for_down body (i - 1)) = None)"
        using True n by (simp add: for_down_pos)
      also have "\<dots> = (\<forall>j. 0 < j \<and> j \<le> i - 1 \<longrightarrow> snd (body j) = None)"
        by (rule "1.IH"[OF True])
      also have "\<dots> = (\<forall>j. 0 < j \<and> j \<le> i \<longrightarrow> snd (body j) = None)"
      proof
        assume h: "\<forall>j. 0 < j \<and> j \<le> i - 1 \<longrightarrow> snd (body j) = None"
        show "\<forall>j. 0 < j \<and> j \<le> i \<longrightarrow> snd (body j) = None"
        proof (intro allI impI)
          fix j assume "0 < j \<and> j \<le> i"
          then have "j = i \<or> (0 < j \<and> j \<le> i - 1)" by arith
          with h n show "snd (body j) = None" by auto
        qed
      next
        assume "\<forall>j. 0 < j \<and> j \<le> i \<longrightarrow> snd (body j) = None"
        then show "\<forall>j. 0 < j \<and> j \<le> i - 1 \<longrightarrow> snd (body j) = None" by auto
      qed
      finally show ?thesis .
    qed
  qed
qed

lemma for_down_filter_le:
  assumes "\<And>j. length (filter P (fst (body j))) \<le> 1"
  shows "length (filter P (fst (for_down body i))) \<le> nat i"
  using assms
proof (induction body i rule: for_down.induct)
  case (1 body i)
  show ?case
  proof (cases "0 < i")
    case False
    then show ?thesis by (simp add: for_down_nonpos)
  next
    case True
    show ?thesis
    proof (cases "snd (body i) = None")
      case False
      moreover from True have "1 \<le> nat i" by simp
      ultimately show ?thesis using True "1.prems"[of i] by (auto simp: for_down_pos)
    next
      case n: True
      then obtain es where b: "body i = (es, None)" by (cases "body i") auto
      have "length (filter P (fst (for_down body (i - 1)))) \<le> nat (i - 1)"
        by (rule "1.IH"[OF True "1.prems"])
      moreover from True have "nat i = Suc (nat (i - 1))" by simp
      ultimately show ?thesis using True n "1.prems"[of i] by (simp add: for_down_pos)
    qed
  qed
qed

lemma for_down_filter_eq:
  assumes "\<And>j. length (filter P (fst (body j))) = 1" and "snd (for_down body i) = None"
  shows "length (filter P (fst (for_down body i))) = nat i"
  using assms
proof (induction body i rule: for_down.induct)
  case (1 body i)
  show ?case
  proof (cases "0 < i")
    case False
    then show ?thesis by (simp add: for_down_nonpos)
  next
    case True
    from "1.prems"(2) have n: "snd (body i) = None"
      using True by (auto simp: for_down_None_iff)
    then obtain es where b: "body i = (es, None)" by (cases "body i") auto
    from "1.prems"(2) True n have "snd (for_down body (i - 1)) = None"
      by (simp add: for_down_pos)
    then have "length (filter P (fst (for_down body (i - 1)))) = nat (i - 1)"
      by (rule "1.IH"[OF True "1.prems"(1)])
    moreover from True have "nat i = Suc (nat (i - 1))" by simp
    ultimately show ?thesis using True n "1.prems"(1)[of i] by (simp add: for_down_pos)
  qed
qed

lemma for_up_overflow:
  "0 \<le> i \<Longrightarrow> i \<le> INT_MAX \<Longrightarrow> INT_MAX < uint n \<Longrightarrow> snd (for_up body n i) \<noteq> None"
proof (induction body n i rule: for_up.induct)
  case (1 body n i)
  from "1.prems" have lt: "(word_of_int i :: uint) < n"
    by (simp add: word_of_int_less)
  show ?case
  proof (cases "snd (body i) = None")
    case False
    with lt show ?thesis by (auto simp: for_up_step)
  next
    case n: True
    then obtain es where b: "body i = (es, None)" by (cases "body i") auto
    show ?thesis
    proof (cases "INT_MAX \<le> i")
      case True
      with lt n show ?thesis by (simp add: for_up_step)
    next
      case False
      with "1.prems" have "snd (for_up body n (i + 1)) \<noteq> None"
        by (intro "1.IH"[OF lt False]) auto
      with lt n False show ?thesis by (simp add: for_up_step)
    qed
  qed
qed

lemma for_up_None_iff:
  "0 \<le> i \<Longrightarrow> i \<le> uint n \<Longrightarrow> uint n \<le> INT_MAX \<Longrightarrow>
   (snd (for_up body n i) = None) = (\<forall>j. i \<le> j \<and> j < uint n \<longrightarrow> snd (body j) = None)"
proof (induction body n i rule: for_up.induct)
  case (1 body n i)
  show ?case
  proof (cases "i < uint n")
    case False
    with "1.prems" have "\<not> (word_of_int i :: uint) < n" by (simp add: word_of_int_less)
    with False show ?thesis by (auto simp: for_up_done)
  next
    case True
    with "1.prems" have lt: "(word_of_int i :: uint) < n" by (simp add: word_of_int_less)
    from True "1.prems" have ni: "\<not> INT_MAX \<le> i" by simp
    show ?thesis
    proof (cases "snd (body i) = None")
      case False
      with lt True show ?thesis by (auto simp: for_up_step)
    next
      case n: True
      then obtain es where b: "body i = (es, None)" by (cases "body i") auto
      have "(snd (for_up body n i) = None) = (snd (for_up body n (i + 1)) = None)"
        using lt n ni by (simp add: for_up_step)
      also have "\<dots> = (\<forall>j. i + 1 \<le> j \<and> j < uint n \<longrightarrow> snd (body j) = None)"
        using "1.prems" True by (intro "1.IH"[OF lt ni]) auto
      also have "\<dots> = (\<forall>j. i \<le> j \<and> j < uint n \<longrightarrow> snd (body j) = None)"
      proof
        assume h: "\<forall>j. i + 1 \<le> j \<and> j < uint n \<longrightarrow> snd (body j) = None"
        show "\<forall>j. i \<le> j \<and> j < uint n \<longrightarrow> snd (body j) = None"
        proof (intro allI impI)
          fix j assume "i \<le> j \<and> j < uint n"
          then have "j = i \<or> (i + 1 \<le> j \<and> j < uint n)" by arith
          with h n show "snd (body j) = None" by auto
        qed
      next
        assume "\<forall>j. i \<le> j \<and> j < uint n \<longrightarrow> snd (body j) = None"
        then show "\<forall>j. i + 1 \<le> j \<and> j < uint n \<longrightarrow> snd (body j) = None" by auto
      qed
      finally show ?thesis .
    qed
  qed
qed

lemma for_up_trace:
  "0 \<le> i \<Longrightarrow> i \<le> uint n \<Longrightarrow> uint n \<le> INT_MAX \<Longrightarrow> snd (for_up body n i) = None \<Longrightarrow>
   fst (for_up body n i) = concat (map (\<lambda>j. fst (body j)) [i..uint n - 1])"
proof (induction body n i rule: for_up.induct)
  case (1 body n i)
  show ?case
  proof (cases "i < uint n")
    case False
    with "1.prems" have "\<not> (word_of_int i :: uint) < n" by (simp add: word_of_int_less)
    with False show ?thesis by (simp add: for_up_done)
  next
    case True
    with "1.prems" have lt: "(word_of_int i :: uint) < n" by (simp add: word_of_int_less)
    from True "1.prems" have ni: "\<not> INT_MAX \<le> i" by simp
    from "1.prems"(4) lt have n: "snd (body i) = None"
      by (auto simp: for_up_step split: if_splits)
    then obtain es where b: "body i = (es, None)" by (cases "body i") auto
    from "1.prems"(4) lt n ni have "snd (for_up body n (i + 1)) = None"
      by (simp add: for_up_step)
    with "1.prems" True
    have "fst (for_up body n (i + 1)) = concat (map (\<lambda>j. fst (body j)) [i + 1..uint n - 1])"
      by (intro "1.IH"[OF lt ni]) auto
    moreover from True have "[i..uint n - 1] = i # [i + 1..uint n - 1]"
      by (simp add: upto_rec1)
    ultimately show ?thesis using lt n ni by (simp add: for_up_step)
  qed
qed

lemma for_down_trace:
  "snd (for_down body i) = None \<Longrightarrow>
   fst (for_down body i) = concat (map (\<lambda>j. fst (body j)) (rev [1..i]))"
proof (induction body i rule: for_down.induct)
  case (1 body i)
  show ?case
  proof (cases "0 < i")
    case False
    then show ?thesis by (simp add: for_down_nonpos)
  next
    case True
    from "1.prems" have n: "snd (body i) = None"
      using True by (auto simp: for_down_None_iff)
    then obtain es where b: "body i = (es, None)" by (cases "body i") auto
    from "1.prems" True n have "snd (for_down body (i - 1)) = None"
      by (simp add: for_down_pos)
    then have "fst (for_down body (i - 1)) = concat (map (\<lambda>j. fst (body j)) (rev [1..i - 1]))"
      by (rule "1.IH"[OF True])
    moreover from True have "[1..i] = [1..i - 1] @ [i]"
      by (simp add: upto_rec2)
    ultimately show ?thesis using True n by (simp add: for_down_pos)
  qed
qed

section \<open>The loop of stats()\<close>

lemma stats_loop_stopped: "stop s \<noteq> 0 \<Longrightarrow> stats_loop verbose cs s = ([], Some s)"
  by (cases cs) auto

lemma stats_loop_verbose:
  "stop s = 0 \<Longrightarrow>
   filter is_Printf_verbose (fst (stats_loop verbose cs s)) =
     (if verbose \<noteq> 0 then map echo (received cs) else [])"
proof (induction cs arbitrary: s)
  case Nil
  then show ?case by simp
next
  case (Cons c cs)
  show ?case
  proof (cases c)
    case (Choose_stop v)
    show ?thesis
    proof (cases "v = 0")
      case True
      with Cons Choose_stop show ?thesis by simp
    next
      case False
      with Cons.prems Choose_stop show ?thesis by (simp add: stats_loop_stopped)
    qed
  next
    case (Choose_stats rs)
    with Cons show ?thesis by (simp add: echo_def)
  next
    case Choose_error
    with Cons.prems show ?thesis by simp
  qed
qed

lemma stats_loop_state:
  "stop s = 0 \<Longrightarrow> snd (stats_loop verbose cs s) = Some s' \<Longrightarrow>
   nrequests s' = nrequests s + of_nat (length (received cs)) \<and>
   total_sum s' = total_sum s + word_of_int (sum_list (map tm (received cs)))"
proof (induction cs arbitrary: s)
  case Nil
  then show ?case by simp
next
  case (Cons c cs)
  show ?case
  proof (cases c)
    case (Choose_stop v)
    show ?thesis
    proof (cases "v = 0")
      case True
      with Cons.prems Choose_stop Cons.IH[of "s\<lparr>stop := v\<rparr>"] show ?thesis by simp
    next
      case False
      with Cons.prems Choose_stop show ?thesis by (auto simp: stats_loop_stopped)
    qed
  next
    case (Choose_stats rs)
    with Cons.prems
      Cons.IH[of "s\<lparr>nrequests := nrequests s + 1, total_sum := total_sum s + word_of_int (tm rs)\<rparr>"]
    show ?thesis by simp
  next
    case Choose_error
    with Cons.prems show ?thesis by auto
  qed
qed

lemma stats_loop_returns:
  "stop s = 0 \<Longrightarrow> (snd (stats_loop verbose cs s) \<noteq> None) = list_ex ends_loop cs"
proof (induction cs arbitrary: s)
  case Nil
  then show ?case by simp
next
  case (Cons c cs)
  show ?case
  proof (cases c)
    case (Choose_stop v)
    show ?thesis
    proof (cases "v = 0")
      case True
      with Cons.prems Choose_stop Cons.IH[of "s\<lparr>stop := v\<rparr>"] show ?thesis by simp
    next
      case False
      with Cons.prems Choose_stop show ?thesis by (simp add: stats_loop_stopped)
    qed
  next
    case (Choose_stats rs)
    with Cons.prems
      Cons.IH[of "s\<lparr>nrequests := nrequests s + 1, total_sum := total_sum s + word_of_int (tm rs)\<rparr>"]
    show ?thesis by simp
  next
    case Choose_error
    with Cons.prems show ?thesis by simp
  qed
qed

lemma stats_loop_quiet:
  "ev \<in> set (fst (stats_loop verbose cs s)) \<Longrightarrow> \<not> is_Printf_avg ev \<and> \<not> sends_on c ev"
proof (induction cs arbitrary: s)
  case Nil
  then show ?case by (simp split: if_splits)
next
  case (Cons c' cs)
  show ?case
  proof (cases "stop s = 0")
    case False
    with Cons.prems show ?thesis by (simp add: stats_loop_stopped)
  next
    case True
    with Cons show ?thesis by (cases c') (auto split: if_splits)
  qed
qed

section \<open>The aggregator\<close>

lemma stats_loop_cases:
  obtains tr where "stats_loop verbose cs agg_init = (tr, None)"
  | tr s where "stats_loop verbose cs agg_init = (tr, Some s)"
  by (cases "stats_loop verbose cs agg_init"; cases "snd (stats_loop verbose cs agg_init)") auto

lemma stats_trace_verbose:
  "filter is_Printf_verbose (fst (stats ack_rc verbose cs)) =
   filter is_Printf_verbose (fst (stats_loop verbose cs agg_init))"
  by (cases rule: stats_loop_cases[of verbose cs]) (auto simp: stats_def)

lemma received_stats_then_stop:
  "v \<noteq> 0 \<Longrightarrow> received (map Choose_stats rs @ Choose_stop v # rest) = rs"
  by (induction rs) auto

lemma ends_stats_then_stop:
  "v \<noteq> 0 \<Longrightarrow> list_ex ends_loop (map Choose_stats rs @ Choose_stop v # rest)"
  by (induction rs) auto

text \<open>
  C6. With verbose reporting on, the lines \<^verbatim>\<open>stats()\<close> echoes are exactly the results it
  receives, one line per result with that result's own status code and latency, in the
  order of arrival; so there are as many lines as results received.
\<close>

theorem verbose_lines_follow_arrival:
  assumes "verbose \<noteq> 0"
  shows "filter is_Printf_verbose (fst (stats ack_rc verbose cs)) = map echo (received cs)
    \<and> length (filter is_Printf_verbose (fst (stats ack_rc verbose cs))) = length (received cs)
    \<and> (v \<noteq> 0 \<longrightarrow>
         filter is_Printf_verbose
           (fst (stats ack_rc verbose (map Choose_stats rs @ Choose_stop v # rest)))
         = map (\<lambda>r. Printf_verbose (http_code r) (tm r)) rs)"
proof -
  have "stop agg_init = 0" by (simp add: agg_init_def)
  then have l: "\<And>cs. filter is_Printf_verbose (fst (stats_loop verbose cs agg_init))
      = map echo (received cs)"
    using assms by (simp add: stats_loop_verbose)
  have "received (map Choose_stats rs @ Choose_stop v # rest) = rs" if "v \<noteq> 0"
    using that by (rule received_stats_then_stop)
  then show ?thesis by (auto simp: stats_trace_verbose l echo_def)
qed

theorem verbose_lines_follow_arrival_witness:
  "(1 :: int) \<noteq> 0 \<and>
   filter is_Printf_verbose
     (fst (stats 0 1
        [Choose_stats \<lparr>tm = 12, http_code = 200\<rparr>, Choose_stats \<lparr>tm = 7, http_code = 404\<rparr>,
         Choose_stats \<lparr>tm = 30, http_code = 200\<rparr>, Choose_stop 1]))
   = [Printf_verbose 200 12, Printf_verbose 404 7, Printf_verbose 200 30]"
  using verbose_lines_follow_arrival [of 1 0
      "[Choose_stats \<lparr>tm = 12, http_code = 200\<rparr>, Choose_stats \<lparr>tm = 7, http_code = 404\<rparr>,
        Choose_stats \<lparr>tm = 30, http_code = 200\<rparr>, Choose_stop 1]"]
  by (simp add: echo_def)

lemma stats_returns:
  assumes "list_ex ends_loop cs"
  obtains tr s where "stats_loop verbose cs agg_init = (tr, Some s)"
proof -
  have "stop agg_init = 0" by (simp add: agg_init_def)
  from stats_loop_returns[OF this, of verbose cs] assms
  have "snd (stats_loop verbose cs agg_init) \<noteq> None" by blast
  then show ?thesis using that by (cases "stats_loop verbose cs agg_init") auto
qed

text \<open>
  C5. When \<^verbatim>\<open>stats()\<close> has received no result by the time its loop ends, it prints no
  average line, sends exactly one message on the stop channel, as its last call, and
  returns.
\<close>

theorem no_samples_still_acknowledges:
  assumes "received cs = []" and "list_ex ends_loop cs"
  shows "snd (stats ack_rc verbose cs) = Some Returned
    \<and> filter is_Printf_avg (fst (stats ack_rc verbose cs)) = []
    \<and> length (filter (sends_on Stop_ch) (fst (stats ack_rc verbose cs))) = 1
    \<and> (\<exists>pre v. fst (stats ack_rc verbose cs) =
          pre @ Chsend Stop_ch (Int_msg v)
                # report ack_rc ''stats() - chsend() failed'')"
proof -
  from assms(2) obtain tr s where l: "stats_loop verbose cs agg_init = (tr, Some s)"
    by (rule stats_returns)
  have "stop agg_init = 0" by (simp add: agg_init_def)
  with l assms(1) have "nrequests s = 0"
    using stats_loop_state[of agg_init verbose cs s] by (simp add: agg_init_def)
  then have st: "stats ack_rc verbose cs =
      (tr @ Chsend Stop_ch (Int_msg (stop s))
            # report ack_rc ''stats() - chsend() failed'',
       Some Returned)"
    using l by (simp add: stats_def)
  have q: "filter is_Printf_avg tr = [] \<and> filter (sends_on Stop_ch) tr = []"
    using stats_loop_quiet[of _ verbose cs agg_init Stop_ch] l by (auto simp: filter_empty_conv)
  show ?thesis using st q by auto
qed

theorem no_samples_still_acknowledges_witness:
  "received [Choose_stop 1] = [] \<and> list_ex ends_loop [Choose_stop 1]
   \<and> stats 0 1 [Choose_stop 1] = ([Choose, Chsend Stop_ch (Int_msg 1)], Some Returned)"
  using no_samples_still_acknowledges [of "[Choose_stop 1]" 0 1]
  by (simp add: stats_def agg_init_def)

lemma sint_of_nat_small:
  assumes "k < 2 ^ 31"
  shows "sint (of_nat k :: uint) = int k"
proof -
  have "sint (of_nat k :: uint) = sint (word_of_int (int k) :: uint)" by simp
  also have "\<dots> = signed_take_bit 31 (int k)" by (simp only: sint_sbintrunc') simp
  also have "\<dots> = int k"
    using assms by (intro signed_take_bit_int_eq_self) auto
  finally show ?thesis .
qed

lemma stats_average_line:
  assumes "list_ex ends_loop cs" and "0 < length (received cs)" and "length (received cs) < 2 ^ 31"
  shows "filter is_Printf_avg (fst (stats ack_rc verbose cs)) =
    [Printf_avg (of_nat (length (received cs)))
       (word_of_int (sum_list (map tm (received cs))) div of_nat (length (received cs)))]"
proof -
  from assms(1) obtain tr s where l: "stats_loop verbose cs agg_init = (tr, Some s)"
    by (rule stats_returns)
  have "stop agg_init = 0" by (simp add: agg_init_def)
  with l have s: "nrequests s = of_nat (length (received cs))"
      "total_sum s = word_of_int (sum_list (map tm (received cs)))"
    using stats_loop_state[of agg_init verbose cs s] by (simp_all add: agg_init_def)
  have "sint (nrequests s) = int (length (received cs))"
    using assms(3) s(1) by (simp add: sint_of_nat_small)
  with assms(2) have pos: "0 <s nrequests s" by (simp add: word_sless_alt)
  have q: "filter is_Printf_avg tr = []"
    using stats_loop_quiet[of _ verbose cs agg_init Stop_ch] l by (auto simp: filter_empty_conv)
  show ?thesis using l pos q s by (simp add: stats_def)
qed

text \<open>
  C4. The sum of the latencies is kept in an \<^verbatim>\<open>unsigned int\<close>: one million results of
  5000 ms each add up to 5000000000 ms, the counter holds 705032704, and the line printed
  gives the average as 705 ms, not 5000 ms.
\<close>

theorem average_wraps_modulo_2_32:
  "filter is_Printf_avg
     (fst (stats 0 0
        (map Choose_stats (replicate 1000000 \<lparr>tm = 5000, http_code = 200\<rparr>) @ [Choose_stop 1])))
   = [Printf_avg 1000000 705]
   \<and> (1000000 * 5000) div 1000000 = (5000 :: int)"
proof -
  let ?rs = "replicate 1000000 \<lparr>tm = 5000, http_code = 200\<rparr>"
  let ?cs = "map Choose_stats ?rs @ [Choose_stop 1]"
  have r: "received ?cs = ?rs" by (rule received_stats_then_stop) simp
  have e: "list_ex ends_loop ?cs" by (rule ends_stats_then_stop) simp
  have sm: "sum_list (map tm ?rs) = 5000000000"
    by (simp add: sum_list_replicate)
  have "filter is_Printf_avg (fst (stats 0 0 ?cs)) =
      [Printf_avg (of_nat (length (received ?cs)))
         (word_of_int (sum_list (map tm (received ?cs))) div of_nat (length (received ?cs)))]"
    by (rule stats_average_line[OF e]) (simp_all only: r length_replicate, simp_all)
  also have "\<dots> = [Printf_avg 1000000 705]"
    by (simp only: r sm length_replicate) simp
  finally show ?thesis by simp
qed

text \<open>
  While the sum of the latencies stays below \<open>2 ^ 32\<close> and the count and the mean below
  \<open>2 ^ 31\<close> (so that \<^verbatim>\<open>%d\<close> prints the unsigned quotient as it is), the one average
  line printed gives the count and the floor of the mean, whatever the order in which the
  results arrived.
\<close>

lemma word_div_of_int_of_nat:
  assumes "0 \<le> a" and "a < 2 ^ 32" and "k < 2 ^ 31"
  shows "(word_of_int a :: uint) div of_nat k = word_of_int (a div int k)"
proof -
  have a: "uint (word_of_int a :: uint) = a"
    using assms(1,2) by (simp add: uint_word_of_int)
  have "uint (of_nat k :: uint) = uint (word_of_int (int k) :: uint)" by simp
  also have "\<dots> = int k"
    using assms(3) by (simp only: uint_word_of_int) simp
  finally have k: "uint (of_nat k :: uint) = int k" .
  have "(word_of_int a :: uint) div of_nat k
      = word_of_int (uint ((word_of_int a :: uint) div of_nat k))" by simp
  also have "\<dots> = word_of_int (a div int k)"
    by (simp only: uint_div a k)
  finally show ?thesis .
qed

theorem average_is_floor_of_mean:
  assumes "list_ex ends_loop cs"
    and "0 < length (received cs)" and "length (received cs) < 2 ^ 31"
    and "0 \<le> sum_list (map tm (received cs))" and "sum_list (map tm (received cs)) < 2 ^ 32"
    and "mset (received cs') = mset (received cs)" and "list_ex ends_loop cs'"
    and "sum_list (map tm (received cs)) div int (length (received cs)) < 2147483648"
  shows "filter is_Printf_avg (fst (stats ack_rc verbose cs)) =
      [Printf_avg (of_nat (length (received cs)))
         (word_of_int (sum_list (map tm (received cs)) div int (length (received cs))))]
    \<and> filter is_Printf_avg (fst (stats ack_rc verbose cs')) =
      filter is_Printf_avg (fst (stats ack_rc verbose cs))"
proof -
  have l: "length (received cs') = length (received cs)"
    using assms(6) by (rule mset_eq_length)
  have "mset (map tm (received cs')) = mset (map tm (received cs))"
    using assms(6) by simp
  then have "sum_mset (mset (map tm (received cs'))) = sum_mset (mset (map tm (received cs)))"
    by simp
  then have m: "sum_list (map tm (received cs')) = sum_list (map tm (received cs))"
    by (simp only: sum_mset_sum_list)
  have 1: "filter is_Printf_avg (fst (stats ack_rc verbose cs)) =
      [Printf_avg (of_nat (length (received cs)))
         (word_of_int (sum_list (map tm (received cs)) div int (length (received cs))))]"
    using assms(1-5) by (simp add: stats_average_line word_div_of_int_of_nat)
  have 2: "filter is_Printf_avg (fst (stats ack_rc verbose cs')) =
      [Printf_avg (of_nat (length (received cs')))
         (word_of_int (sum_list (map tm (received cs'))) div of_nat (length (received cs')))]"
    using assms(2,3,7) l by (intro stats_average_line) simp_all
  show ?thesis using 1 2 assms(3-5) by (simp add: l m word_div_of_int_of_nat)
qed

theorem average_is_floor_of_mean_witness:
  "filter is_Printf_avg
     (fst (stats 0 0 [Choose_stats \<lparr>tm = 100, http_code = 200\<rparr>,
                      Choose_stats \<lparr>tm = 201, http_code = 404\<rparr>, Choose_stop 1]))
     = [Printf_avg 2 150]
   \<and> filter is_Printf_avg
     (fst (stats 0 0 [Choose_stats \<lparr>tm = 201, http_code = 404\<rparr>,
                      Choose_stats \<lparr>tm = 100, http_code = 200\<rparr>, Choose_stop 1]))
     = [Printf_avg 2 150]"
  using average_is_floor_of_mean [of
      "[Choose_stats \<lparr>tm = 100, http_code = 200\<rparr>,
        Choose_stats \<lparr>tm = 201, http_code = 404\<rparr>, Choose_stop 1]"
      "[Choose_stats \<lparr>tm = 201, http_code = 404\<rparr>,
        Choose_stats \<lparr>tm = 100, http_code = 200\<rparr>, Choose_stop 1]" 0 0]
  by simp

section \<open>The worker\<close>

lemma boom_body_goes_on [simp]: "snd (boom_body e url timeout i) = None"
  by (simp add: boom_body_def split: prod.splits)

lemma boom_body_one_attempt:
  "length (filter is_MakeRequest (fst (boom_body e url timeout i))) = 1"
  by (simp add: boom_body_def split: prod.splits)

lemma boom_body_publishes:
  "length (filter (sends_on Stats_ch) (fst (boom_body e url timeout i))) =
     (if fst (MakeRequest_ret e i reqstats_new) = 0 then 1 else 0)"
  by (simp add: boom_body_def split: prod.splits)

lemma boom_body_no_signal:
  "filter (sends_on Done_ch) (fst (boom_body e url timeout i)) = []"
  by (simp add: boom_body_def split: prod.splits)

lemma boom_loop_goes_on [simp]: "snd (for_down (boom_body e url timeout) i) = None"
  by (simp add: for_down_None_iff)

lemma boom_unfold:
  "boom e url nreqs timeout =
     (fst (for_down (boom_body e url timeout) (sint nreqs))
      @ Chsend Done_ch (Int_msg 1)
        # report (chsend_done_rc e) ''boom() - chsend() failed'',
      Some Returned)"
proof -
  obtain tr where "for_down (boom_body e url timeout) (sint nreqs) = (tr, None)"
    using boom_loop_goes_on[of e url timeout "sint nreqs"]
    by (cases "for_down (boom_body e url timeout) (sint nreqs)") auto
  then show ?thesis by (simp add: boom_def)
qed

lemma boom_attempts: "attempts (fst (boom e url nreqs timeout)) = nat (sint nreqs)"
proof -
  have "length (filter is_MakeRequest (fst (for_down (boom_body e url timeout) (sint nreqs))))
      = nat (sint nreqs)"
    by (rule for_down_filter_eq) (simp_all add: boom_body_one_attempt)
  then show ?thesis by (simp add: boom_unfold attempts_def)
qed

lemma length_filter_concat_map:
  "length (filter P (concat (map f xs))) = sum_list (map (\<lambda>x. length (filter P (f x))) xs)"
  by (induction xs) auto

lemma sum_list_indicator:
  "sum_list (map (\<lambda>x. if Q x then 1 else 0) xs) = length (filter Q xs)"
  by (induction xs) auto

lemma boom_publishes:
  "length (filter (sends_on Stats_ch) (fst (boom e url nreqs timeout))) =
   length (filter (\<lambda>i. fst (MakeRequest_ret e i reqstats_new) = 0) [1..sint nreqs])"
proof -
  have "length (filter (sends_on Stats_ch) (fst (for_down (boom_body e url timeout) (sint nreqs))))
      = length (filter (\<lambda>i. fst (MakeRequest_ret e i reqstats_new) = 0) (rev [1..sint nreqs]))"
    by (simp add: for_down_trace length_filter_concat_map boom_body_publishes sum_list_indicator)
  also have "\<dots> = length (filter (\<lambda>i. fst (MakeRequest_ret e i reqstats_new) = 0) [1..sint nreqs])"
    by (simp only: rev_filter[symmetric] length_rev)
  finally show ?thesis by (simp add: boom_unfold)
qed

lemma boom_signals_once:
  "length (filter (sends_on Done_ch) (fst (boom e url nreqs timeout))) = 1"
proof -
  have "filter (sends_on Done_ch) (fst (for_down (boom_body e url timeout) (sint nreqs))) = []"
    using for_down_events[of _ "boom_body e url timeout" "sint nreqs"] boom_body_no_signal[of e url timeout]
    by (auto simp: filter_empty_conv)
  then show ?thesis by (simp add: boom_unfold)
qed

text \<open>
  C8. A worker given the count 4294967295 makes no request at all: \<^verbatim>\<open>int i = nreqs\<close>
  is -1, the loop body never runs, and the worker only signals completion.
\<close>

theorem worker_skips_large_count:
  "boom e url 4294967295 timeout =
     (Chsend Done_ch (Int_msg 1)
      # report (chsend_done_rc e) ''boom() - chsend() failed'',
      Some Returned)
   \<and> attempts (fst (boom e url 4294967295 timeout)) = 0
   \<and> unat (4294967295 :: uint) = 4294967295"
  by (simp add: boom_unfold for_down_nonpos attempts_def)

lemma sint_small:
  assumes "(n :: uint) < 2147483648"
  shows "sint n = int (unat n)"
proof -
  from assms have "uint n < 2147483648" by (simp add: word_less_alt)
  then have "signed_take_bit 31 (uint n) = uint n"
    by (intro signed_take_bit_int_eq_self) (auto intro: order_trans[of _ 0])
  then show ?thesis by (simp add: sint_uint)
qed

text \<open>
  A worker given a count below \<open>2 ^ 31\<close> makes exactly that many requests, publishes one
  result for each request that succeeds and nothing for one that fails, then signals
  completion once, as its last call, and returns.
\<close>

theorem worker_runs_its_count:
  assumes "nreqs < 2147483648"
  shows "attempts (fst (boom e url nreqs timeout)) = unat nreqs
    \<and> length (filter (sends_on Stats_ch) (fst (boom e url nreqs timeout))) =
        length (filter (\<lambda>i. fst (MakeRequest_ret e i reqstats_new) = 0) [1..int (unat nreqs)])
    \<and> length (filter (sends_on Done_ch) (fst (boom e url nreqs timeout))) = 1
    \<and> (\<exists>pre. fst (boom e url nreqs timeout) =
          pre @ Chsend Done_ch (Int_msg 1)
                # report (chsend_done_rc e) ''boom() - chsend() failed'')
    \<and> snd (boom e url nreqs timeout) = Some Returned"
proof -
  note s = sint_small[OF assms]
  have a: "attempts (fst (boom e url nreqs timeout)) = unat nreqs"
    by (simp add: boom_attempts s)
  have p: "length (filter (sends_on Stats_ch) (fst (boom e url nreqs timeout))) =
        length (filter (\<lambda>i. fst (MakeRequest_ret e i reqstats_new) = 0) [1..int (unat nreqs)])"
    by (simp only: boom_publishes s)
  have d: "length (filter (sends_on Done_ch) (fst (boom e url nreqs timeout))) = 1"
    by (rule boom_signals_once)
  have l: "\<exists>pre. fst (boom e url nreqs timeout) =
          pre @ Chsend Done_ch (Int_msg 1)
                # report (chsend_done_rc e) ''boom() - chsend() failed''"
    by (subst boom_unfold) simp
  have r: "snd (boom e url nreqs timeout) = Some Returned"
    by (subst boom_unfold) simp
  from a p d l r show ?thesis by blast
qed

theorem worker_runs_its_count_witness:
  "(3 :: uint) < 2147483648
   \<and> boom \<lparr>MakeRequest_ret = (\<lambda>i rs. (if i = 2 then - 1 else 0, rs\<lparr>tm := 100 + i\<rparr>)),
            chsend_stats_rc = (\<lambda>i. 0), chsend_done_rc = 0\<rparr> ''u'' 3 5000
     = ([MakeRequest ''u'' 5000, Chsend Stats_ch (Stats_msg \<lparr>tm = 103, http_code = 0\<rparr>),
         MakeRequest ''u'' 5000,
         MakeRequest ''u'' 5000, Chsend Stats_ch (Stats_msg \<lparr>tm = 101, http_code = 0\<rparr>),
         Chsend Done_ch (Int_msg 1)], Some Returned)"
  using worker_runs_its_count [of 3
      "\<lparr>MakeRequest_ret = (\<lambda>i rs. (if i = 2 then - 1 else 0, rs\<lparr>tm := 100 + i\<rparr>)),
            chsend_stats_rc = (\<lambda>i. 0), chsend_done_rc = 0\<rparr>" "''u''" 5000]
  by (simp add: boom_def boom_body_def for_down.simps reqstats_new_def)

section \<open>Loops as iteration over lists\<close>

lemma prepend_nil [simp]: "prepend [] p = p"
  by (cases p) simp

lemma prepend_prepend [simp]: "prepend xs (prepend ys p) = prepend (xs @ ys) p"
  by (cases p) simp

lemma andthen_stop: "snd a \<noteq> None \<Longrightarrow> andthen a k = a"
  by (auto simp: andthen_alt)

lemma andthen_cont: "snd a = None \<Longrightarrow> andthen a k = prepend (fst a) k"
  by (simp add: andthen_alt)

lemma andthen_assoc: "andthen (andthen a b) c = andthen a (andthen b c)"
  by (cases a; cases "snd a"; cases b; cases "snd b"; cases c) auto

lemma iterate_append: "iterate body (xs @ ys) = andthen (iterate body xs) (iterate body ys)"
  by (induction xs) (simp_all add: andthen_assoc)

lemma iterate_None_iff:
  "(snd (iterate body js) = None) = list_all (\<lambda>j. snd (body j) = None) js"
  by (induction js) (auto simp: snd_andthen)

lemma iterate_all:
  "list_all (\<lambda>j. snd (body j) = None) js \<Longrightarrow>
   iterate body js = (concat (map (\<lambda>j. fst (body j)) js), None)"
  by (induction js) (auto simp: andthen_alt)

lemma iterate_exit:
  "snd (iterate body js) = Some out \<Longrightarrow>
   \<exists>a j b. js = a @ j # b \<and> list_all (\<lambda>j. snd (body j) = None) a \<and> snd (body j) = Some out
     \<and> fst (iterate body js) = concat (map (\<lambda>j. fst (body j)) a) @ fst (body j)"
proof (induction js)
  case Nil
  then show ?case by simp
next
  case (Cons x xs)
  show ?case
  proof (cases "snd (body x) = None")
    case False
    with Cons.prems have "snd (body x) = Some out" by (simp add: andthen_alt)
    moreover from False have "fst (iterate body (x # xs)) = fst (body x)" by (auto simp: andthen_alt)
    ultimately show ?thesis by (intro exI[of _ "[]"] exI[of _ x] exI[of _ xs]) simp
  next
    case True
    with Cons.prems have "snd (iterate body xs) = Some out" by (simp add: andthen_alt)
    from Cons.IH[OF this] obtain a j b where
      h: "xs = a @ j # b" "list_all (\<lambda>j. snd (body j) = None) a" "snd (body j) = Some out"
         "fst (iterate body xs) = concat (map (\<lambda>j. fst (body j)) a) @ fst (body j)"
      by blast
    with True show ?thesis
      by (intro exI[of _ "x # a"] exI[of _ j] exI[of _ b]) (simp add: andthen_alt)
  qed
qed

lemma for_down_iterate: "for_down body i = iterate body (rev [1..i])"
proof (induction body i rule: for_down.induct)
  case (1 body i)
  show ?case
  proof (cases "0 < i")
    case False
    then show ?thesis by (simp add: for_down_nonpos)
  next
    case True
    then have "[1..i] = [1..i - 1] @ [i]" by (simp add: upto_rec2)
    with True "1.IH" show ?thesis by (subst for_down.simps) simp
  qed
qed

lemma for_up_iterate:
  "0 \<le> i \<Longrightarrow> i \<le> uint n \<Longrightarrow> uint n \<le> INT_MAX \<Longrightarrow>
   for_up body n i = iterate body [i..uint n - 1]"
proof (induction body n i rule: for_up.induct)
  case (1 body n i)
  show ?case
  proof (cases "i < uint n")
    case False
    with "1.prems" have "\<not> (word_of_int i :: uint) < n" by (simp add: word_of_int_less)
    with False show ?thesis by (simp add: for_up_done)
  next
    case True
    with "1.prems" have lt: "(word_of_int i :: uint) < n" by (simp add: word_of_int_less)
    from True "1.prems" have ni: "\<not> INT_MAX \<le> i" by simp
    from "1.prems" True have "for_up body n (i + 1) = iterate body [i + 1..uint n - 1]"
      by (intro "1.IH"[OF lt ni]) auto
    moreover from True have "[i..uint n - 1] = i # [i + 1..uint n - 1]"
      by (simp add: upto_rec1)
    ultimately show ?thesis using lt ni by (subst for_up.simps) simp
  qed
qed

lemma for_up_iterate_overflow:
  "0 \<le> i \<Longrightarrow> i \<le> INT_MAX \<Longrightarrow> INT_MAX < uint n \<Longrightarrow>
   for_up body n i = andthen (iterate body [i..INT_MAX]) ([], Some Undefined)"
proof (induction body n i rule: for_up.induct)
  case (1 body n i)
  from "1.prems" have lt: "(word_of_int i :: uint) < n" by (simp add: word_of_int_less)
  show ?case
  proof (cases "INT_MAX \<le> i")
    case True
    with "1.prems" have "i = INT_MAX" by simp
    then have "[i..INT_MAX] = [i]" by simp
    with lt True show ?thesis by (subst for_up.simps) (simp add: andthen_alt)
  next
    case False
    with "1.prems"
    have "for_up body n (i + 1) = andthen (iterate body [i + 1..INT_MAX]) ([], Some Undefined)"
      by (intro "1.IH"[OF lt False]) auto
    moreover from False have "[i..INT_MAX] = i # [i + 1..INT_MAX]"
      by (simp add: upto_rec1)
    ultimately show ?thesis using lt False by (subst for_up.simps) (simp add: andthen_assoc)
  qed
qed

section \<open>The parts of main()\<close>

lemma sint_cases:
  "sint (n :: uint) = (if uint n \<le> INT_MAX then uint n else uint n - 4294967296)"
proof -
  have b: "0 \<le> uint n" "uint n < 4294967296"
    using uint_lt2p[of n] by simp_all
  have "sint (word_of_int (uint n) :: uint) = (uint n + 2147483648) mod 4294967296 - 2147483648"
    by (simp only: int_word_sint) simp
  then have s: "sint n = (uint n + 2147483648) mod 4294967296 - 2147483648" by simp
  show ?thesis
  proof (cases "uint n \<le> INT_MAX")
    case True
    with b have "(uint n + 2147483648) mod 4294967296 = uint n + 2147483648"
      by (intro mod_pos_pos_trivial) (auto simp: INT_MAX_def)
    with s True show ?thesis by simp
  next
    case False
    have "(uint n + 2147483648) mod 4294967296
        = ((uint n - 2147483648) + 4294967296) mod 4294967296" by (simp add: add.commute)
    also have "\<dots> = (uint n - 2147483648) mod 4294967296"
      by (simp only: mod_add_self2)
    also have "\<dots> = uint n - 2147483648"
      using b False by (intro mod_pos_pos_trivial) (auto simp: INT_MAX_def)
    finally show ?thesis using s False by simp
  qed
qed

lemma uint_le_INT_MAX_sint: "uint (n :: uint) \<le> INT_MAX \<Longrightarrow> sint n = uint n"
  by (simp add: sint_cases)

lemma nat_sint_le_unat: "nat (sint (n :: uint)) \<le> unat n"
proof -
  have "uint n < 4294967296" using uint_lt2p[of n] by simp
  then show ?thesis by (simp add: sint_cases)
qed

lemma concat_singletons: "concat (map (\<lambda>j. [f j]) js) = map f js"
  by (induction js) auto

lemma map_const_replicate: "map (\<lambda>j. x) js = replicate (length js) x"
  by (induction js) auto

subsection \<open>Launching the workers\<close>

lemma launch_body_alt:
  "launch_body e share i =
     (if go_boom_ret e i < 0
      then ([Go_boom i share, Perror ''Could not launch coroutine''], Some (Exit EXIT_FAILURE))
      else ([Go_boom i share], None))"
  by (simp add: launch_body_def fatal_def)

lemma launch_loop_events:
  "ev \<in> set (fst (for_up (launch_body e share) n i)) \<Longrightarrow> startup_event ev"
  by (drule for_up_events) (auto simp: launch_body_alt split: if_splits)

lemma launch_loop_None_iff:
  "(snd (for_up (launch_body e share) n 0) = None) = (uint n \<le> INT_MAX \<and> workers_ok e n)"
proof (cases "uint n \<le> INT_MAX")
  case True
  have "(\<lambda>j. snd (launch_body e share j) = None) = (\<lambda>i. 0 \<le> go_boom_ret e i)"
    by (auto simp: launch_body_alt)
  with True show ?thesis
    by (simp add: for_up_iterate iterate_None_iff workers_ok_def)
next
  case False
  then have "snd (for_up (launch_body e share) n 0) \<noteq> None"
    by (intro for_up_overflow) (auto simp: INT_MAX_def)
  with False show ?thesis by simp
qed

lemma launch_loop_trace:
  assumes "uint n \<le> INT_MAX" and "workers_ok e n"
  shows "for_up (launch_body e share) n 0 = (map (\<lambda>i. Go_boom i share) [0..uint n - 1], None)"
proof -
  have ok: "list_all (\<lambda>j. snd (launch_body e share j) = None) [0..uint n - 1]"
    using assms(2) by (simp add: workers_ok_def launch_body_alt list_all_iff not_less)
  have "concat (map (\<lambda>j. fst (launch_body e share j)) [0..uint n - 1])
      = concat (map (\<lambda>j. [Go_boom j share]) [0..uint n - 1])"
    using assms(2) by (intro arg_cong[where f = concat] map_cong)
      (auto simp: workers_ok_def launch_body_alt list_all_iff not_less)
  then show ?thesis
    using assms(1) ok by (simp add: for_up_iterate iterate_all concat_singletons)
qed

subsection \<open>Everything up to the launch\<close>

lemma startup_invalid:
  "nreqs = 0 \<or> nconcurr = 0 \<or> nreqs < nconcurr \<Longrightarrow>
   startup e url nreqs nconcurr t v =
     ([if nreqs = 0 \<or> nconcurr = 0 then Fprintf_zero nreqs nconcurr
       else Fprintf_less nreqs nconcurr], Some (Exit EXIT_FAILURE))"
  by (auto simp: startup_def validate_def)

lemma startup_valid:
  "nreqs \<noteq> 0 \<Longrightarrow> nconcurr \<noteq> 0 \<Longrightarrow> nconcurr \<le> nreqs \<Longrightarrow>
   startup e url nreqs nconcurr t v =
     (if chmake_ret e Done_ch < 0 \<or> chmake_ret e Stats_ch < 0 \<or> chmake_ret e Stop_ch < 0 then
        ([Printf_banner url nreqs nconcurr t, Chmake Done_ch, Chmake Stats_ch, Chmake Stop_ch,
          Perror ''Could not create channel''], Some (Exit EXIT_FAILURE))
      else if go_stats_ret e < 0 then
        ([Printf_banner url nreqs nconcurr t, Chmake Done_ch, Chmake Stats_ch, Chmake Stop_ch,
          Time, Go_stats v, Perror ''Could not start stats coroutine''], Some (Exit EXIT_FAILURE))
      else if malloc_null e then
        ([Printf_banner url nreqs nconcurr t, Chmake Done_ch, Chmake Stats_ch, Chmake Stop_ch,
          Time, Go_stats v, Malloc (unat nconcurr * 4),
          Perror ''Could not allocate memory for coroutine handles''], Some (Exit EXIT_FAILURE))
      else
        prepend
          [Printf_banner url nreqs nconcurr t, Chmake Done_ch, Chmake Stats_ch, Chmake Stop_ch,
           Time, Go_stats v, Malloc (unat nconcurr * 4)]
          (for_up (launch_body e (nreqs div nconcurr)) nconcurr 0))"
  by (simp add: startup_def validate_def make_channels_def launch_stats_def alloc_handles_def
      fatal_def leD)

lemma startup_events:
  assumes "ev \<in> set (fst (startup e url nreqs nconcurr t v))"
  shows "startup_event ev"
proof (cases "nreqs = 0 \<or> nconcurr = 0 \<or> nreqs < nconcurr")
  case True
  with assms show ?thesis by (auto simp: startup_invalid split: if_splits)
next
  case False
  then have v: "nreqs \<noteq> 0" "nconcurr \<noteq> 0" "nconcurr \<le> nreqs" by auto
  from assms show ?thesis
    unfolding startup_valid[OF v]
    by (auto simp: launch_loop_events split: if_splits)
qed

lemma startup_None_iff:
  "(snd (startup e url nreqs nconcurr t v) = None) =
     (nreqs \<noteq> 0 \<and> nconcurr \<noteq> 0 \<and> nconcurr \<le> nreqs \<and> resources_ok e
      \<and> uint nconcurr \<le> INT_MAX \<and> workers_ok e nconcurr)"
proof (cases "nreqs = 0 \<or> nconcurr = 0 \<or> nreqs < nconcurr")
  case True
  then show ?thesis by (auto simp: startup_invalid)
next
  case False
  then have v: "nreqs \<noteq> 0" "nconcurr \<noteq> 0" "nconcurr \<le> nreqs" by auto
  show ?thesis
    unfolding startup_valid[OF v]
    using v by (auto simp: launch_loop_None_iff resources_ok_def)
qed

lemma startup_trace:
  assumes "snd (startup e url nreqs nconcurr t v) = None"
  shows "fst (startup e url nreqs nconcurr t v) =
     [Printf_banner url nreqs nconcurr t, Chmake Done_ch, Chmake Stats_ch, Chmake Stop_ch,
      Time, Go_stats v, Malloc (unat nconcurr * 4)]
     @ map (\<lambda>i. Go_boom i (nreqs div nconcurr)) [0..uint nconcurr - 1]"
proof -
  from assms have h: "nreqs \<noteq> 0" "nconcurr \<noteq> 0" "nconcurr \<le> nreqs" "resources_ok e"
      "uint nconcurr \<le> INT_MAX" "workers_ok e nconcurr"
    by (simp_all add: startup_None_iff)
  show ?thesis
    using h(4) by (simp add: startup_valid[OF h(1-3)] launch_loop_trace[OF h(5,6)]
        resources_ok_def not_less[symmetric])
qed

subsection \<open>The join barrier\<close>

lemma join_body_alt:
  "join_body e i =
     (case chrecv_done_rc e i of
        None \<Rightarrow> ([Chrecv Done_ch], Some Blocked)
      | Some rc \<Rightarrow>
          if rc \<noteq> 0
          then ([Chrecv Done_ch, Perror ''Could not receive on done_ch''], Some (Exit EXIT_FAILURE))
          else ([Chrecv Done_ch], None))"
  by (simp add: join_body_def fatal_def split: option.splits)

lemma join_body_None_iff: "(snd (join_body e i) = None) = (chrecv_done_rc e i = Some 0)"
  by (auto simp: join_body_alt split: option.splits)

lemma join_body_one_recv:
  "length (filter (\<lambda>ev. ev = Chrecv Done_ch) (fst (join_body e i))) = 1"
  by (simp add: join_body_alt split: option.splits)

lemma join_events: "ev \<in> set (fst (join_barrier e nconcurr)) \<Longrightarrow> join_event ev"
  unfolding join_barrier_def
  by (drule for_down_events) (auto simp: join_body_alt split: option.splits if_splits)

lemma join_None_iff:
  "uint nconcurr \<le> INT_MAX \<Longrightarrow> (snd (join_barrier e nconcurr) = None) = signals_ok e nconcurr"
  by (simp add: join_barrier_def for_down_iterate iterate_None_iff join_body_None_iff
      signals_ok_def uint_le_INT_MAX_sint list_all_iff)

lemma join_trace:
  assumes "uint nconcurr \<le> INT_MAX" and "signals_ok e nconcurr"
  shows "join_barrier e nconcurr = (replicate (unat nconcurr) (Chrecv Done_ch), None)"
proof -
  let ?js = "rev [1..uint nconcurr]"
  have ok: "list_all (\<lambda>j. snd (join_body e j) = None) ?js"
    using assms(2) by (simp add: signals_ok_def join_body_None_iff list_all_iff)
  have "concat (map (\<lambda>j. fst (join_body e j)) ?js) = concat (map (\<lambda>j. [Chrecv Done_ch]) ?js)"
    using assms(2) by (intro arg_cong[where f = concat] map_cong)
      (auto simp: signals_ok_def join_body_alt list_all_iff)
  also have "\<dots> = replicate (unat nconcurr) (Chrecv Done_ch)"
    by (simp only: concat_singletons map_const_replicate) simp
  finally show ?thesis
    using assms(1) ok
    by (simp add: join_barrier_def for_down_iterate iterate_all uint_le_INT_MAX_sint)
qed

lemma join_count_le:
  "length (filter (\<lambda>ev. ev = Chrecv Done_ch) (fst (join_barrier e nconcurr))) \<le> unat nconcurr"
proof -
  have "length (filter (\<lambda>ev. ev = Chrecv Done_ch) (fst (join_barrier e nconcurr)))
      \<le> nat (sint nconcurr)"
    unfolding join_barrier_def by (rule for_down_filter_le) (simp add: join_body_one_recv)
  also have "nat (sint nconcurr) \<le> unat nconcurr" by (rule nat_sint_le_unat)
  finally show ?thesis .
qed

section \<open>Runs of main()\<close>

text \<open>For evaluating \<^verbatim>\<open>main()\<close> on given arguments.\<close>

lemmas main_defs =
  main_run_def startup_def join_barrier_def teardown_def validate_def make_channels_def
  launch_stats_def alloc_handles_def launch_body_def join_body_def stop_handshake_def
  close_body_def cleanup_def hclose_def fatal_def report_def for_up.simps for_down.simps
  INT_MAX_def EXIT_SUCCESS_def EXIT_FAILURE_def

lemmas args_defs =
  main_def getRequests_def getConcurrentReqs_def getTimeout_def atoi_def strtol_def
  decimal_value_def LONG_MAX_def LONG_MIN_def isspace_def isdigit_def
  DEFAULT_REQUESTS_def DEFAULT_CONCURR_def DEFAULT_TIMEOUT_def

subsection \<open>The stop handshake and the release of the resources\<close>

lemma close_body_goes_on [simp]: "snd (close_body e i) = None"
  by (simp add: close_body_def)

lemma hclose_events: "ev \<in> set (hclose e h m) \<Longrightarrow> teardown_event ev"
  by (auto simp: hclose_def dest: set_report)

lemma teardown_events: "ev \<in> set (fst (teardown e nconcurr)) \<Longrightarrow> teardown_event ev"
  by (auto simp: teardown_def fst_andthen cleanup_def close_body_def
      dest!: for_up_events hclose_events split: if_splits)

lemma teardown_exit:
  "uint nconcurr \<le> INT_MAX \<Longrightarrow> snd (teardown e nconcurr) = Some (Exit EXIT_SUCCESS)"
  by (simp add: teardown_def snd_andthen for_up_None_iff cleanup_def)

lemma teardown_trace:
  "uint nconcurr \<le> INT_MAX \<Longrightarrow>
   fst (teardown e nconcurr) =
     concat (map (\<lambda>i. hclose e (Boom_co i) ''Could not close boom coroutine'')
               [0..uint nconcurr - 1])
     @ fst (cleanup e)"
  by (simp add: teardown_def fst_andthen for_up_None_iff for_up_trace close_body_def)

text \<open>The five ways a run of \<^verbatim>\<open>main()\<close> can go.\<close>

lemma main_run_cases [case_names startup_stops join_stops send_blocks recv_blocks completes]:
  fixes e url nreqs nconcurr t v
  defines "S \<equiv> startup e url nreqs nconcurr t v"
    and "J \<equiv> join_barrier e nconcurr"
  obtains
    "snd S \<noteq> None" "main_run e url nreqs nconcurr t v = S"
  | "snd S = None" "snd J \<noteq> None" "main_run e url nreqs nconcurr t v = (fst S @ fst J, snd J)"
  | "snd S = None" "snd J = None" "chsend_stop_rc e = None"
    "main_run e url nreqs nconcurr t v =
       (fst S @ fst J @ [Chsend Stop_ch (Int_msg 1)], Some Blocked)"
  | r1 where "snd S = None" "snd J = None" "chsend_stop_rc e = Some r1" "chrecv_stop_rc e = None"
    "main_run e url nreqs nconcurr t v =
       (fst S @ fst J @ Chsend Stop_ch (Int_msg 1) # report r1 ''Failed to send on stop_ch''
        @ [Chrecv Stop_ch], Some Blocked)"
  | r1 r2 where "snd S = None" "snd J = None"
    "chsend_stop_rc e = Some r1" "chrecv_stop_rc e = Some r2"
    "main_run e url nreqs nconcurr t v =
       (fst S @ fst J @ Chsend Stop_ch (Int_msg 1) # report r1 ''Failed to send on stop_ch''
        @ Chrecv Stop_ch # report r2 ''Failed to receive on stop_ch''
        @ fst (teardown e nconcurr), Some (Exit EXIT_SUCCESS))"
proof (cases "snd S = None")
  case False
  then have "main_run e url nreqs nconcurr t v = S"
    unfolding main_run_def S_def[symmetric] by (rule andthen_stop)
  with False that(1) show ?thesis by blast
next
  case sn: True
  then have c: "uint nconcurr \<le> INT_MAX" by (simp add: S_def startup_None_iff)
  show ?thesis
  proof (cases "snd J = None")
    case False
    with sn have "main_run e url nreqs nconcurr t v = (fst S @ fst J, snd J)"
      unfolding main_run_def S_def[symmetric] J_def[symmetric]
      by (cases J) (simp add: andthen_cont andthen_stop)
    with sn False that(2) show ?thesis by blast
  next
    case jn: True
    have m: "main_run e url nreqs nconcurr t v =
        prepend (fst S @ fst J) (andthen (stop_handshake e) (teardown e nconcurr))"
      using sn jn unfolding main_run_def S_def[symmetric] J_def[symmetric]
      by (simp add: andthen_cont)
    show ?thesis
    proof (cases "chsend_stop_rc e")
      case None
      with m have "main_run e url nreqs nconcurr t v =
          (fst S @ fst J @ [Chsend Stop_ch (Int_msg 1)], Some Blocked)"
        by (simp add: stop_handshake_def)
      with sn jn None that(3) show ?thesis by blast
    next
      case (Some r1)
      show ?thesis
      proof (cases "chrecv_stop_rc e")
        case None
        with m Some have "main_run e url nreqs nconcurr t v =
          (fst S @ fst J @ Chsend Stop_ch (Int_msg 1) # report r1 ''Failed to send on stop_ch''
           @ [Chrecv Stop_ch], Some Blocked)"
          by (simp add: stop_handshake_def)
        with sn jn Some None that(4) show ?thesis by blast
      next
        case r2: (Some r2)
        obtain tt where tt: "teardown e nconcurr = (tt, Some (Exit EXIT_SUCCESS))"
          using teardown_exit[OF c, of e] by (cases "teardown e nconcurr") auto
        with m Some r2 have "main_run e url nreqs nconcurr t v =
          (fst S @ fst J @ Chsend Stop_ch (Int_msg 1) # report r1 ''Failed to send on stop_ch''
           @ Chrecv Stop_ch # report r2 ''Failed to receive on stop_ch''
           @ fst (teardown e nconcurr), Some (Exit EXIT_SUCCESS))"
          by (simp add: stop_handshake_def)
        with sn jn Some r2 that(5) show ?thesis by blast
      qed
    qed
  qed
qed

section \<open>The join barrier\<close>

lemma startup_filter:
  "(\<And>ev. startup_event ev \<Longrightarrow> \<not> P ev) \<Longrightarrow> filter P (fst (startup e url nreqs nconcurr t v)) = []"
  by (auto simp: filter_empty_conv dest: startup_events)

lemma teardown_filter:
  "(\<And>ev. teardown_event ev \<Longrightarrow> \<not> P ev) \<Longrightarrow> filter P (fst (teardown e nconcurr)) = []"
  by (auto simp: filter_empty_conv dest: teardown_events)

lemma startup_not: "ev \<in> set (fst (startup e url nreqs nconcurr t v)) \<Longrightarrow> \<not> startup_event ev \<Longrightarrow> False"
  by (auto dest: startup_events)

lemma join_not: "ev \<in> set (fst (join_barrier e nconcurr)) \<Longrightarrow> \<not> join_event ev \<Longrightarrow> False"
  by (auto dest: join_events)

lemma teardown_not: "ev \<in> set (fst (teardown e nconcurr)) \<Longrightarrow> \<not> teardown_event ev \<Longrightarrow> False"
  by (auto dest: teardown_events)

lemma takeWhile_stop: "x \<notin> set xs \<Longrightarrow> takeWhile (\<lambda>ev. ev \<noteq> x) (xs @ x # rest) = xs"
  by (induction xs) auto

lemma join_done:
  assumes "snd (startup e url nreqs nconcurr t v) = None" and "snd (join_barrier e nconcurr) = None"
  shows "signals_ok e nconcurr"
    and "fst (join_barrier e nconcurr) = replicate (unat nconcurr) (Chrecv Done_ch)"
proof -
  from assms(1) have c: "uint nconcurr \<le> INT_MAX" by (simp add: startup_None_iff)
  with assms(2) show s: "signals_ok e nconcurr" by (simp add: join_None_iff)
  show "fst (join_barrier e nconcurr) = replicate (unat nconcurr) (Chrecv Done_ch)"
    by (simp add: join_trace[OF c s])
qed

lemma join_not_done:
  assumes "snd (startup e url nreqs nconcurr t v) = None" and "snd (join_barrier e nconcurr) \<noteq> None"
  shows "\<not> signals_ok e nconcurr"
proof -
  from assms(1) have c: "uint nconcurr \<le> INT_MAX" by (simp add: startup_None_iff)
  with assms(2) show ?thesis by (simp add: join_None_iff)
qed

lemma startup_no_done_recv:
  "filter (\<lambda>ev. ev = Chrecv Done_ch) (fst (startup e url nreqs nconcurr t v)) = []"
  by (rule startup_filter) auto

lemma teardown_no_done_recv:
  "filter (\<lambda>ev. ev = Chrecv Done_ch) (fst (teardown e nconcurr)) = []"
  by (rule teardown_filter) auto

lemma startup_no_send: "Chsend c m \<notin> set (fst (startup e url nreqs nconcurr t v))"
  by (auto dest: startup_not)

lemma join_no_send: "Chsend c m \<notin> set (fst (join_barrier e nconcurr))"
  by (auto dest: join_not)

lemma takeWhile_until_stop:
  "takeWhile (\<lambda>ev. ev \<noteq> Chsend Stop_ch (Int_msg 1))
     (fst (startup e url nreqs nconcurr t v) @ replicate n (Chrecv Done_ch)
      @ Chsend Stop_ch (Int_msg 1) # rest)
   = fst (startup e url nreqs nconcurr t v) @ replicate n (Chrecv Done_ch)"
  using takeWhile_stop[of "Chsend Stop_ch (Int_msg 1)"
      "fst (startup e url nreqs nconcurr t v) @ replicate n (Chrecv Done_ch)" rest]
    startup_no_send[of Stop_ch "Int_msg 1" e url nreqs nconcurr t v]
  by simp

text \<open>Where the stop request is sent, the launch went through and \<open>C\<close> signals came first.\<close>

lemma stop_after_signals:
  assumes "Chsend Stop_ch (Int_msg 1) \<in> set (fst (main_run e url nreqs nconcurr t v))"
  shows "snd (startup e url nreqs nconcurr t v) = None"
    and "signals_ok e nconcurr"
    and "length (filter (\<lambda>ev. ev = Chrecv Done_ch)
           (takeWhile (\<lambda>ev. ev \<noteq> Chsend Stop_ch (Int_msg 1))
              (fst (main_run e url nreqs nconcurr t v)))) = unat nconcurr"
proof -
  note s0 = startup_no_done_recv[of e url nreqs nconcurr t v]
  have "snd (startup e url nreqs nconcurr t v) = None \<and> signals_ok e nconcurr
    \<and> length (filter (\<lambda>ev. ev = Chrecv Done_ch)
           (takeWhile (\<lambda>ev. ev \<noteq> Chsend Stop_ch (Int_msg 1))
              (fst (main_run e url nreqs nconcurr t v)))) = unat nconcurr"
  proof (cases rule: main_run_cases[of e url nreqs nconcurr t v])
    case startup_stops
    with assms show ?thesis by (simp add: startup_no_send)
  next
    case join_stops
    with assms show ?thesis by (simp add: startup_no_send join_no_send)
  next
    case send_blocks
    note d = join_done[OF send_blocks(1,2)]
    show ?thesis
      unfolding send_blocks(4) d(2) using d(1) send_blocks(1) s0
      by (simp add: takeWhile_until_stop)
  next
    case (recv_blocks r1)
    note d = join_done[OF recv_blocks(1,2)]
    show ?thesis
      unfolding recv_blocks(5) d(2) using d(1) recv_blocks(1) s0
      by (simp add: takeWhile_until_stop)
  next
    case (completes r1 r2)
    note d = join_done[OF completes(1,2)]
    show ?thesis
      unfolding completes(5) d(2) using d(1) completes(1) s0
      by (simp add: takeWhile_until_stop)
  qed
  then show "snd (startup e url nreqs nconcurr t v) = None"
    and "signals_ok e nconcurr"
    and "length (filter (\<lambda>ev. ev = Chrecv Done_ch)
           (takeWhile (\<lambda>ev. ev \<noteq> Chsend Stop_ch (Int_msg 1))
              (fst (main_run e url nreqs nconcurr t v)))) = unat nconcurr"
    by simp_all
qed

text \<open>
  C3. In every run of \<^verbatim>\<open>main()\<close>, the stop request is sent if and only if the
  configuration is valid, the channels, the aggregator, the handle array and the \<open>C\<close>
  workers were all obtained, and each of the \<open>C\<close> receives on the completion channel
  returned a signal; the completion channel is never received from more than \<open>C\<close> times;
  and when the stop request is sent, exactly \<open>C\<close> receives on the completion channel
  come before it.
\<close>

theorem join_barrier_counts_signals:
  "(Chsend Stop_ch (Int_msg 1) \<in> set (fst (main_run e url nreqs nconcurr t v))) =
     (nreqs \<noteq> 0 \<and> nconcurr \<noteq> 0 \<and> nconcurr \<le> nreqs \<and> resources_ok e
      \<and> uint nconcurr \<le> INT_MAX \<and> workers_ok e nconcurr \<and> signals_ok e nconcurr)
   \<and> length (filter (\<lambda>ev. ev = Chrecv Done_ch) (fst (main_run e url nreqs nconcurr t v)))
       \<le> unat nconcurr
   \<and> (Chsend Stop_ch (Int_msg 1) \<in> set (fst (main_run e url nreqs nconcurr t v)) \<longrightarrow>
       length (filter (\<lambda>ev. ev = Chrecv Done_ch)
         (takeWhile (\<lambda>ev. ev \<noteq> Chsend Stop_ch (Int_msg 1))
            (fst (main_run e url nreqs nconcurr t v)))) = unat nconcurr)"
proof -
  let ?tr = "fst (main_run e url nreqs nconcurr t v)"
  note s0 = startup_no_done_recv[of e url nreqs nconcurr t v]
  note t0 = teardown_no_done_recv[of e nconcurr]
  have sent: "Chsend Stop_ch (Int_msg 1) \<in> set ?tr"
    if "snd (startup e url nreqs nconcurr t v) = None" and "signals_ok e nconcurr"
  proof (cases rule: main_run_cases[of e url nreqs nconcurr t v])
    case startup_stops
    with that(1) show ?thesis by simp
  next
    case join_stops
    from join_not_done[OF join_stops(1,2)] that(2) show ?thesis by simp
  next
    case send_blocks
    then show ?thesis by simp
  next
    case (recv_blocks r1)
    then show ?thesis by simp
  next
    case (completes r1 r2)
    then show ?thesis by simp
  qed
  have bound: "length (filter (\<lambda>ev. ev = Chrecv Done_ch) ?tr) \<le> unat nconcurr"
  proof (cases rule: main_run_cases[of e url nreqs nconcurr t v])
    case startup_stops
    with s0 show ?thesis by simp
  next
    case join_stops
    with s0 join_count_le[of e nconcurr] show ?thesis by simp
  next
    case send_blocks
    note d = join_done[OF send_blocks(1,2)]
    show ?thesis unfolding send_blocks(4) d(2) using s0 by simp
  next
    case (recv_blocks r1)
    note d = join_done[OF recv_blocks(1,2)]
    show ?thesis unfolding recv_blocks(5) d(2) using s0 by simp
  next
    case (completes r1 r2)
    note d = join_done[OF completes(1,2)]
    show ?thesis unfolding completes(5) d(2) using s0 t0 by simp
  qed
  note launch = startup_None_iff[of e url nreqs nconcurr t v]
  have iff: "(Chsend Stop_ch (Int_msg 1) \<in> set ?tr) =
     (nreqs \<noteq> 0 \<and> nconcurr \<noteq> 0 \<and> nconcurr \<le> nreqs \<and> resources_ok e
      \<and> uint nconcurr \<le> INT_MAX \<and> workers_ok e nconcurr \<and> signals_ok e nconcurr)"
  proof -
    have "(Chsend Stop_ch (Int_msg 1) \<in> set ?tr) =
        (snd (startup e url nreqs nconcurr t v) = None \<and> signals_ok e nconcurr)"
      using sent stop_after_signals(1,2)[of e url nreqs nconcurr t v] by blast
    then show ?thesis by (simp only: launch conj_assoc)
  qed
  from iff bound stop_after_signals(3)[of e url nreqs nconcurr t v] show ?thesis by blast
qed

theorem join_barrier_counts_signals_witness:
  "Chsend Stop_ch (Int_msg 1) \<in> set (fst (main_run env_ok ''u'' 10 3 5000 0))
   \<and> length (filter (\<lambda>ev. ev = Chrecv Done_ch)
         (takeWhile (\<lambda>ev. ev \<noteq> Chsend Stop_ch (Int_msg 1))
            (fst (main_run env_ok ''u'' 10 3 5000 0)))) = 3
   \<and> Chsend Stop_ch (Int_msg 1)
       \<notin> set (fst (main_run (env_ok\<lparr>chrecv_done_rc := (\<lambda>i. if i = 1 then None else Some 0)\<rparr>)
                     ''u'' 10 3 5000 0))"
  using join_barrier_counts_signals [of env_ok "''u''" 10 3 5000 0]
    join_barrier_counts_signals
      [of "env_ok\<lparr>chrecv_done_rc := (\<lambda>i. if i = 1 then None else Some 0)\<rparr>" "''u''" 10 3 5000 0]
  by (simp add: main_defs env_ok_def signals_ok_def upto.simps)

section \<open>The shutdown sequence\<close>

lemma takeWhile_all:
  "list_all Q xs \<Longrightarrow> list_all Q (takeWhile P ys) \<Longrightarrow> list_all Q (takeWhile P (xs @ ys))"
  by (induction xs) auto

lemma takeWhile_all_self: "list_all Q xs \<Longrightarrow> list_all Q (takeWhile P xs)"
  by (induction xs) auto

lemma startup_all:
  "(\<And>ev. startup_event ev \<Longrightarrow> Q ev) \<Longrightarrow> list_all Q (fst (startup e url nreqs nconcurr t v))"
  by (auto simp: list_all_iff dest: startup_events)

lemma join_all:
  "(\<And>ev. join_event ev \<Longrightarrow> Q ev) \<Longrightarrow> list_all Q (fst (join_barrier e nconcurr))"
  by (auto simp: list_all_iff dest: join_events)

lemma report_all: "Q (Perror m) \<Longrightarrow> list_all Q (report rc m)"
  by (simp add: report_def)

lemma startup_not_teardown: "startup_event ev \<Longrightarrow> \<not> is_teardown ev"
  by (cases ev) auto

lemma join_not_teardown: "join_event ev \<Longrightarrow> \<not> is_teardown ev"
  by (cases ev) auto

text \<open>
  C9. The receive of the acknowledgment fails: \<^verbatim>\<open>main()\<close> reports it and goes on to close
  the handles, free the array and print the run time, with no acknowledgment received.
\<close>

theorem teardown_without_acknowledgment:
  "chrecv_stop_rc env_no_ack = Some (- 1)
   \<and> main_run env_no_ack ''u'' 1 1 5000 0 =
     ([Printf_banner ''u'' 1 1 5000, Chmake Done_ch, Chmake Stats_ch, Chmake Stop_ch, Time,
       Go_stats 0, Malloc 4, Go_boom 0 1, Chrecv Done_ch, Chsend Stop_ch (Int_msg 1),
       Chrecv Stop_ch, Perror ''Failed to receive on stop_ch'',
       Hclose (Boom_co 0), Hclose Stats_co, Hclose (Channel Done_ch),
       Hclose (Channel Stats_ch), Hclose (Channel Stop_ch), Free, Time, Printf_runtime],
      Some (Exit EXIT_SUCCESS))"
  by (simp add: main_defs env_ok_def env_no_ack_def)

text \<open>
  C9, as the code has it. In every run of \<^verbatim>\<open>main()\<close>: nothing is received from the stop
  channel and nothing is released before the stop request is sent; nothing is released
  before the receive on the stop channel; the stop request is sent only after \<open>C\<close>
  receives on the completion channel that all returned a signal; and when anything is
  released, both calls of the stop handshake have returned, each followed by its error
  report when it failed, and the release follows them.
\<close>

theorem shutdown_sequence_ordered:
  "list_all (\<lambda>ev. ev \<noteq> Chrecv Stop_ch \<and> \<not> is_teardown ev)
     (takeWhile (\<lambda>ev. ev \<noteq> Chsend Stop_ch (Int_msg 1)) (fst (main_run e url nreqs nconcurr t v)))
   \<and> list_all (\<lambda>ev. \<not> is_teardown ev)
     (takeWhile (\<lambda>ev. ev \<noteq> Chrecv Stop_ch) (fst (main_run e url nreqs nconcurr t v)))
   \<and> (Chsend Stop_ch (Int_msg 1) \<in> set (fst (main_run e url nreqs nconcurr t v)) \<longrightarrow>
        signals_ok e nconcurr
        \<and> length (filter (\<lambda>ev. ev = Chrecv Done_ch)
            (takeWhile (\<lambda>ev. ev \<noteq> Chsend Stop_ch (Int_msg 1))
               (fst (main_run e url nreqs nconcurr t v)))) = unat nconcurr)
   \<and> (list_ex is_teardown (fst (main_run e url nreqs nconcurr t v)) \<longrightarrow>
        (\<exists>r1 r2 pre.
           chsend_stop_rc e = Some r1 \<and> chrecv_stop_rc e = Some r2
           \<and> \<not> list_ex is_teardown pre
           \<and> fst (main_run e url nreqs nconcurr t v) =
               pre @ Chsend Stop_ch (Int_msg 1) # report r1 ''Failed to send on stop_ch''
               @ Chrecv Stop_ch # report r2 ''Failed to receive on stop_ch''
               @ fst (teardown e nconcurr)))"
proof -
  let ?S = "fst (startup e url nreqs nconcurr t v)"
  let ?J = "fst (join_barrier e nconcurr)"
  let ?stop = "Chsend Stop_ch (Int_msg 1)"
  let ?Q1 = "\<lambda>ev. ev \<noteq> Chrecv Stop_ch \<and> \<not> is_teardown ev"
  let ?Q2 = "\<lambda>ev. \<not> is_teardown ev"
  have S1: "list_all ?Q1 ?S" by (rule startup_all) (auto dest: startup_not_teardown)
  have S2: "list_all ?Q2 ?S" by (rule startup_all) (auto dest: startup_not_teardown)
  have J1: "list_all ?Q1 ?J" by (rule join_all) (auto dest: join_not_teardown)
  have J2: "list_all ?Q2 ?J" by (rule join_all) (auto dest: join_not_teardown)
  have SJ1: "list_all ?Q1 (?S @ ?J)" using S1 J1 by simp
  have SJ2: "list_all ?Q2 (?S @ ?J)" using S2 J2 by simp
  have nS: "\<not> list_ex is_teardown ?S" using S2 by (simp add: list_all_iff list_ex_iff)
  have nJ: "\<not> list_ex is_teardown ?J" using J2 by (simp add: list_all_iff list_ex_iff)
  have R2: "\<And>rc m. list_all ?Q2 (report rc m)" by (rule report_all) simp
  have nR: "\<And>rc m. \<not> list_ex is_teardown (report rc m)"
    by (simp add: report_def)
  have o3: "Chsend Stop_ch (Int_msg 1) \<in> set (fst (main_run e url nreqs nconcurr t v)) \<longrightarrow>
        signals_ok e nconcurr
        \<and> length (filter (\<lambda>ev. ev = Chrecv Done_ch)
            (takeWhile (\<lambda>ev. ev \<noteq> Chsend Stop_ch (Int_msg 1))
               (fst (main_run e url nreqs nconcurr t v)))) = unat nconcurr"
    using stop_after_signals[of e url nreqs nconcurr t v] by blast
  show ?thesis
  proof (cases rule: main_run_cases[of e url nreqs nconcurr t v])
    case startup_stops
    show ?thesis
      using o3 S1 S2 nS by (simp add: startup_stops(2) takeWhile_all_self)
  next
    case join_stops
    show ?thesis
      using o3 SJ1 SJ2 nS nJ by (simp add: join_stops(3) takeWhile_all_self del: list_all_append)
  next
    case send_blocks
    have a: "list_all ?Q1 (takeWhile (\<lambda>ev. ev \<noteq> ?stop) ((?S @ ?J) @ [?stop]))"
      by (rule takeWhile_all[OF SJ1]) simp
    have b: "list_all ?Q2 (takeWhile (\<lambda>ev. ev \<noteq> Chrecv Stop_ch) ((?S @ ?J) @ [?stop]))"
      by (rule takeWhile_all[OF SJ2]) simp
    show ?thesis
      using o3 a b nS nJ by (simp add: send_blocks(4))
  next
    case (recv_blocks r1)
    let ?rest = "?stop # report r1 ''Failed to send on stop_ch'' @ [Chrecv Stop_ch]"
    have a: "list_all ?Q1 (takeWhile (\<lambda>ev. ev \<noteq> ?stop) ((?S @ ?J) @ ?rest))"
      by (rule takeWhile_all[OF SJ1]) simp
    have "list_all ?Q2 (takeWhile (\<lambda>ev. ev \<noteq> Chrecv Stop_ch)
        (report r1 ''Failed to send on stop_ch'' @ [Chrecv Stop_ch]))"
      by (rule takeWhile_all[OF R2]) simp
    then have b: "list_all ?Q2 (takeWhile (\<lambda>ev. ev \<noteq> Chrecv Stop_ch) ((?S @ ?J) @ ?rest))"
      by (intro takeWhile_all[OF SJ2]) simp
    show ?thesis
      using o3 a b nS nJ nR by (simp add: recv_blocks(5))
  next
    case (completes r1 r2)
    let ?tail = "Chrecv Stop_ch # report r2 ''Failed to receive on stop_ch''
        @ fst (teardown e nconcurr)"
    let ?rest = "?stop # report r1 ''Failed to send on stop_ch'' @ ?tail"
    have a: "list_all ?Q1 (takeWhile (\<lambda>ev. ev \<noteq> ?stop) ((?S @ ?J) @ ?rest))"
      by (rule takeWhile_all[OF SJ1]) simp
    have "list_all ?Q2 (takeWhile (\<lambda>ev. ev \<noteq> Chrecv Stop_ch)
        (report r1 ''Failed to send on stop_ch'' @ ?tail))"
      by (rule takeWhile_all[OF R2]) simp
    then have b: "list_all ?Q2 (takeWhile (\<lambda>ev. ev \<noteq> Chrecv Stop_ch) ((?S @ ?J) @ ?rest))"
      by (intro takeWhile_all[OF SJ2]) simp
    have d: "\<exists>r1' r2' pre.
           chsend_stop_rc e = Some r1' \<and> chrecv_stop_rc e = Some r2'
           \<and> \<not> list_ex is_teardown pre
           \<and> fst (main_run e url nreqs nconcurr t v) =
               pre @ Chsend Stop_ch (Int_msg 1) # report r1' ''Failed to send on stop_ch''
               @ Chrecv Stop_ch # report r2' ''Failed to receive on stop_ch''
               @ fst (teardown e nconcurr)"
      using completes(3,4) nS nJ
      by (intro exI[of _ r1] exI[of _ r2] exI[of _ "?S @ ?J"]) (simp add: completes(5))
    have a': "list_all ?Q1 (takeWhile (\<lambda>ev. ev \<noteq> ?stop) (fst (main_run e url nreqs nconcurr t v)))"
      using a by (simp add: completes(5))
    have b': "list_all ?Q2 (takeWhile (\<lambda>ev. ev \<noteq> Chrecv Stop_ch) (fst (main_run e url nreqs nconcurr t v)))"
      using b by (simp add: completes(5))
    from a' b' o3 d show ?thesis by blast
  qed
qed

theorem shutdown_sequence_ordered_witness:
  "Chsend Stop_ch (Int_msg 1) \<in> set (fst (main_run env_ok ''u'' 10 3 5000 0))
   \<and> list_ex is_teardown (fst (main_run env_ok ''u'' 10 3 5000 0))
   \<and> signals_ok env_ok 3
   \<and> (\<exists>pre. \<not> list_ex is_teardown pre
        \<and> fst (main_run env_ok ''u'' 10 3 5000 0) =
            pre @ [Chsend Stop_ch (Int_msg 1), Chrecv Stop_ch] @ fst (teardown env_ok 3))"
  using shutdown_sequence_ordered [of env_ok "''u''" 10 3 5000 0]
  by (simp add: main_defs env_ok_def signals_ok_def upto.simps)

section \<open>Program arguments\<close>

text \<open>
  C2. When the request count is 0, or the concurrency is 0, or the request count is below
  the concurrency, all that \<^verbatim>\<open>main()\<close> does is print the matching message on stderr and
  call \<^verbatim>\<open>exit(EXIT_FAILURE)\<close>, which is not 0: no channel is made, nothing is launched.
\<close>

theorem invalid_configuration_rejected:
  assumes "\<not> opt_unknown a" and "opt_url a = Some url"
    and "getRequests (opt_n a) = nreqs" and "getConcurrentReqs (opt_c a) = nconcurr"
    and "nreqs = 0 \<or> nconcurr = 0 \<or> nreqs < nconcurr"
  shows "main e a =
      ([if nreqs = 0 \<or> nconcurr = 0 then Fprintf_zero nreqs nconcurr
        else Fprintf_less nreqs nconcurr], Some (Exit EXIT_FAILURE))
    \<and> EXIT_FAILURE \<noteq> 0"
proof -
  have "main e a = main_run e url nreqs nconcurr (getTimeout (opt_t a)) (opt_v a)"
    using assms(1-4) by (simp add: main_def)
  also have "\<dots> = startup e url nreqs nconcurr (getTimeout (opt_t a)) (opt_v a)"
    unfolding main_run_def by (rule andthen_stop) (simp add: startup_invalid[OF assms(5)])
  finally show ?thesis by (simp add: startup_invalid[OF assms(5)] EXIT_FAILURE_def)
qed

theorem invalid_configuration_rejected_witness:
  "main env_ok \<lparr>opt_n = Some ''5'', opt_c = Some ''10'', opt_t = None, opt_v = 0,
                 opt_unknown = False, opt_url = Some ''http://localhost/''\<rparr>
     = ([Fprintf_less 5 10], Some (Exit EXIT_FAILURE))
   \<and> main env_ok \<lparr>opt_n = Some ''0'', opt_c = None, opt_t = None, opt_v = 0,
                   opt_unknown = False, opt_url = Some ''http://localhost/''\<rparr>
     = ([Fprintf_zero 0 5], Some (Exit EXIT_FAILURE))"
  using invalid_configuration_rejected [of
      "\<lparr>opt_n = Some ''5'', opt_c = Some ''10'', opt_t = None, opt_v = 0,
        opt_unknown = False, opt_url = Some ''http://localhost/''\<rparr>"
      "''http://localhost/''" 5 10 env_ok]
    invalid_configuration_rejected [of
      "\<lparr>opt_n = Some ''0'', opt_c = None, opt_t = None, opt_v = 0,
        opt_unknown = False, opt_url = Some ''http://localhost/''\<rparr>"
      "''http://localhost/''" 0 5 env_ok]
  by (simp add: args_defs)

lemma uint_of_negative:
  assumes "k < 0" and "- 2147483648 \<le> k"
  shows "uint (word_of_int k :: uint) = 4294967296 + k"
proof -
  have "k mod 4294967296 = (k + 4294967296) mod 4294967296" by simp
  also have "\<dots> = k + 4294967296"
    using assms by (intro mod_pos_pos_trivial) auto
  finally show ?thesis by (simp add: uint_word_of_int)
qed

lemma atoi_in_range:
  assumes "- 2147483648 \<le> decimal_value s" and "decimal_value s \<le> 2147483647"
  shows "atoi s = decimal_value s"
proof -
  from assms have "strtol s = decimal_value s"
    by (simp add: strtol_def LONG_MAX_def LONG_MIN_def)
  moreover have "sint (word_of_int (decimal_value s) :: uint) = signed_take_bit 31 (decimal_value s)"
    by (simp only: sint_sbintrunc') simp
  moreover have "signed_take_bit 31 (decimal_value s) = decimal_value s"
    using assms by (intro signed_take_bit_int_eq_self) auto
  ultimately show ?thesis by (simp add: atoi_def)
qed

lemma word_of_atoi: "(word_of_int (atoi s) :: uint) = word_of_int (strtol s)"
  by (simp add: atoi_def)

lemma validate_passes_iff:
  "(validate nreqs nconcurr = ([], None)) = (nreqs \<noteq> 0 \<and> nconcurr \<noteq> 0 \<and> nconcurr \<le> nreqs)"
  by (auto simp: validate_def)

lemma main_run_starts:
  assumes "nreqs \<noteq> 0" and "nconcurr \<noteq> 0" and "nconcurr \<le> nreqs"
  shows "\<exists>tr out. main_run e url nreqs nconcurr t v =
      (Printf_banner url nreqs nconcurr t # Chmake Done_ch # Chmake Stats_ch # Chmake Stop_ch
       # tr, out)"
proof -
  have "\<exists>tr out. startup e url nreqs nconcurr t v =
      (Printf_banner url nreqs nconcurr t # Chmake Done_ch # Chmake Stats_ch # Chmake Stop_ch
       # tr, out)"
    unfolding startup_valid[OF assms]
    by (cases "for_up (launch_body e (nreqs div nconcurr)) nconcurr 0") auto
  then obtain tr out where s: "startup e url nreqs nconcurr t v =
      (Printf_banner url nreqs nconcurr t # Chmake Done_ch # Chmake Stats_ch # Chmake Stop_ch
       # tr, out)" by blast
  show ?thesis
    unfolding main_run_def s
    by (cases out;
        cases "andthen (join_barrier e nconcurr) (andthen (stop_handshake e) (teardown e nconcurr))")
      auto
qed

text \<open>
  C10. Not every negative value passes: \<^verbatim>\<open>-n -4294967296\<close> is converted to the request
  count 0 and turned down by the first check. Whether a value that passes it starts a run
  is for the second check: \<^verbatim>\<open>-c -1\<close> with the default request count 10 is converted
  to 4294967295 and turned down there.
\<close>

theorem negative_value_can_be_rejected:
  "decimal_value ''-4294967296'' = - 4294967296
   \<and> getRequests (Some ''-4294967296'') = 0
   \<and> main env_ok \<lparr>opt_n = Some ''-4294967296'', opt_c = None, opt_t = None, opt_v = 0,
                   opt_unknown = False, opt_url = Some ''u''\<rparr>
       = ([Fprintf_zero 0 5], Some (Exit EXIT_FAILURE))
   \<and> main env_ok \<lparr>opt_n = None, opt_c = Some ''-1'', opt_t = None, opt_v = 0,
                   opt_unknown = False, opt_url = Some ''u''\<rparr>
       = ([Fprintf_less 10 4294967295], Some (Exit EXIT_FAILURE))"
  by (simp add: args_defs main_defs)

text \<open>
  C10, as the code has it. A negative command-line value that fits an \<^verbatim>\<open>int\<close> is what
  \<^verbatim>\<open>atoi\<close> returns, and becomes that value plus \<open>2 ^ 32\<close> as the unsigned request count
  or concurrency: at least \<open>2 ^ 31\<close>, so not 0. The validation lets through exactly the
  pairs with both counts other than 0 and the concurrency at most the request count, as
  unsigned values. So with such a \<^verbatim>\<open>-n\<close> and a concurrency from 1 to \<^verbatim>\<open>INT_MAX\<close> the run
  starts: the banner is printed and the three channels are made; and such a \<^verbatim>\<open>-c\<close> with
  a request count from 1 to \<^verbatim>\<open>INT_MAX\<close> is turned down by the second check alone.
\<close>

theorem negative_count_wraps:
  assumes "decimal_value s < 0" and "- 2147483648 \<le> decimal_value s"
  shows "atoi s = decimal_value s
    \<and> uint (getRequests (Some s)) = 4294967296 + decimal_value s
    \<and> uint (getConcurrentReqs (Some s)) = 4294967296 + decimal_value s
    \<and> 2147483648 \<le> uint (getRequests (Some s)) \<and> 2147483648 \<le> uint (getConcurrentReqs (Some s))
    \<and> getRequests (Some s) \<noteq> 0 \<and> getConcurrentReqs (Some s) \<noteq> 0
    \<and> (validate nreqs nconcurr = ([], None)) = (nreqs \<noteq> 0 \<and> nconcurr \<noteq> 0 \<and> nconcurr \<le> nreqs)
    \<and> (nconcurr \<noteq> 0 \<and> uint nconcurr \<le> INT_MAX \<longrightarrow>
         (\<exists>tr out. main_run e url (getRequests (Some s)) nconcurr t v =
            (Printf_banner url (getRequests (Some s)) nconcurr t
             # Chmake Done_ch # Chmake Stats_ch # Chmake Stop_ch # tr, out)))
    \<and> (nreqs \<noteq> 0 \<and> uint nreqs \<le> INT_MAX \<longrightarrow>
         main_run e url nreqs (getConcurrentReqs (Some s)) t v =
           ([Fprintf_less nreqs (getConcurrentReqs (Some s))], Some (Exit EXIT_FAILURE)))"
proof -
  have a: "atoi s = decimal_value s"
    using assms by (intro atoi_in_range) auto
  have u: "uint (getRequests (Some s)) = 4294967296 + decimal_value s"
    "uint (getConcurrentReqs (Some s)) = 4294967296 + decimal_value s"
    using assms by (simp_all add: getRequests_def getConcurrentReqs_def a uint_of_negative)
  from u assms have big: "2147483648 \<le> uint (getRequests (Some s))"
      "2147483648 \<le> uint (getConcurrentReqs (Some s))"
    by simp_all
  from u assms have nz: "getRequests (Some s) \<noteq> 0" "getConcurrentReqs (Some s) \<noteq> 0"
    by (auto simp: word_uint_eq_iff)
  have st: "\<exists>tr out. main_run e url (getRequests (Some s)) nconcurr t v =
            (Printf_banner url (getRequests (Some s)) nconcurr t
             # Chmake Done_ch # Chmake Stats_ch # Chmake Stop_ch # tr, out)"
    if "nconcurr \<noteq> 0" "uint nconcurr \<le> INT_MAX"
  proof -
    from that(2) u(1) assms(2) have "nconcurr \<le> getRequests (Some s)"
      by (simp add: word_le_def INT_MAX_def)
    with nz(1) that(1) show ?thesis by (intro main_run_starts)
  qed
  have rj: "main_run e url nreqs (getConcurrentReqs (Some s)) t v =
           ([Fprintf_less nreqs (getConcurrentReqs (Some s))], Some (Exit EXIT_FAILURE))"
    if "nreqs \<noteq> 0" "uint nreqs \<le> INT_MAX"
  proof -
    from that(2) u(2) assms(2) have lt: "nreqs < getConcurrentReqs (Some s)"
      by (simp add: word_less_def INT_MAX_def)
    then have i: "nreqs = 0 \<or> getConcurrentReqs (Some s) = 0 \<or> nreqs < getConcurrentReqs (Some s)"
      by simp
    have "main_run e url nreqs (getConcurrentReqs (Some s)) t v =
        startup e url nreqs (getConcurrentReqs (Some s)) t v"
      unfolding main_run_def by (rule andthen_stop) (simp add: startup_invalid[OF i])
    with that(1) nz(2) show ?thesis by (simp add: startup_invalid[OF i])
  qed
  from a u big nz st rj show ?thesis by (simp add: validate_passes_iff)
qed

theorem negative_count_wraps_witness:
  "decimal_value ''-1'' < 0 \<and> - 2147483648 \<le> decimal_value ''-1''
   \<and> atoi ''-1'' = - 1
   \<and> getRequests (Some ''-1'') = 4294967295
   \<and> validate (getRequests (Some ''-1'')) (getConcurrentReqs None) = ([], None)
   \<and> (5 :: uint) \<noteq> 0 \<and> uint (5 :: uint) \<le> INT_MAX
   \<and> (\<exists>tr out. main_run env_ok ''u'' (getRequests (Some ''-1'')) 5 5000 0 =
        (Printf_banner ''u'' (getRequests (Some ''-1'')) 5 5000
         # Chmake Done_ch # Chmake Stats_ch # Chmake Stop_ch # tr, out))
   \<and> main_run env_ok ''u'' 10 (getConcurrentReqs (Some ''-1'')) 5000 0 =
        ([Fprintf_less 10 4294967295], Some (Exit EXIT_FAILURE))"
  using negative_count_wraps [of "''-1''" "getRequests (Some ''-1'')" "getConcurrentReqs None"
      env_ok "''u''" 5000 0]
    negative_count_wraps [of "''-1''" 10 5 env_ok "''u''" 5000 0]
  by (simp add: getRequests_def getConcurrentReqs_def atoi_def strtol_def decimal_value_def
      LONG_MAX_def LONG_MIN_def isspace_def isdigit_def DEFAULT_CONCURR_def INT_MAX_def)

section \<open>Failures of the calls of main()\<close>

subsection \<open>The first failure of a launch or of a receive\<close>

lemma iterate_launch_fails:
  assumes "j \<in> set js" and "go_boom_ret e j < 0"
  shows "\<exists>pre. iterate (launch_body e share) js =
      (pre @ [Perror ''Could not launch coroutine''], Some (Exit EXIT_FAILURE))"
proof -
  have "\<not> list_all (\<lambda>j. snd (launch_body e share j) = None) js"
    using assms by (auto simp: list_all_iff launch_body_alt)
  then obtain out where o: "snd (iterate (launch_body e share) js) = Some out"
    by (auto simp: iterate_None_iff[symmetric])
  from iterate_exit[OF o] obtain a k b where
    h: "snd (launch_body e share k) = Some out"
       "fst (iterate (launch_body e share) js) =
          concat (map (\<lambda>j. fst (launch_body e share j)) a) @ fst (launch_body e share k)"
    by blast
  from h(1) have "out = Exit EXIT_FAILURE"
    and "fst (launch_body e share k) = [Go_boom k share, Perror ''Could not launch coroutine'']"
    by (auto simp: launch_body_alt split: if_splits)
  with h(2) o show ?thesis
    by (intro exI[of _ "concat (map (\<lambda>j. fst (launch_body e share j)) a) @ [Go_boom k share]"])
      (simp add: prod_eq_iff)
qed

lemma launch_fails:
  assumes "0 \<le> j" and "j < uint n" and "j \<le> INT_MAX" and "go_boom_ret e j < 0"
  shows "\<exists>pre. for_up (launch_body e share) n 0 =
      (pre @ [Perror ''Could not launch coroutine''], Some (Exit EXIT_FAILURE))"
proof (cases "uint n \<le> INT_MAX")
  case True
  from assms(1,2) have "j \<in> set [0..uint n - 1]" by simp
  from iterate_launch_fails[OF this assms(4)] True show ?thesis
    by (simp add: for_up_iterate)
next
  case False
  from assms(1,3) have "j \<in> set [0..INT_MAX]" by simp
  from iterate_launch_fails[OF this assms(4), of share] False show ?thesis
    by (auto simp: for_up_iterate_overflow INT_MAX_def)
qed

lemma join_fails:
  assumes "uint nconcurr \<le> INT_MAX" and "0 < j" and "j \<le> uint nconcurr"
    and "chrecv_done_rc e j = Some rc" and "rc \<noteq> 0"
    and "list_all (\<lambda>i. chrecv_done_rc e i = Some 0) [j + 1..uint nconcurr]"
  shows "\<exists>pre. join_barrier e nconcurr =
      (pre @ [Perror ''Could not receive on done_ch''], Some (Exit EXIT_FAILURE))"
proof -
  let ?hi = "rev [j + 1..uint nconcurr]"
  have sp: "[1..uint nconcurr] = [1..j - 1] @ j # [j + 1..uint nconcurr]"
    using assms(2,3) by (intro upto_split3) auto
  have hi: "iterate (join_body e) ?hi = (concat (map (\<lambda>j. fst (join_body e j)) ?hi), None)"
    using assms(6) by (intro iterate_all) (simp add: join_body_None_iff list_all_iff)
  have b: "join_body e j =
      ([Chrecv Done_ch, Perror ''Could not receive on done_ch''], Some (Exit EXIT_FAILURE))"
    using assms(4,5) by (simp add: join_body_alt)
  have "join_barrier e nconcurr = iterate (join_body e) (?hi @ j # rev [1..j - 1])"
    using assms(1) sp by (simp add: join_barrier_def for_down_iterate uint_le_INT_MAX_sint)
  also have "\<dots> = (concat (map (\<lambda>j. fst (join_body e j)) ?hi)
        @ [Chrecv Done_ch, Perror ''Could not receive on done_ch''], Some (Exit EXIT_FAILURE))"
    by (simp only: iterate_append hi iterate.simps b) simp
  finally show ?thesis
    by (intro exI[of _ "concat (map (\<lambda>j. fst (join_body e j)) ?hi) @ [Chrecv Done_ch]"]) simp
qed

lemma teardown_releases:
  "uint nconcurr \<le> INT_MAX \<Longrightarrow> list_ex is_teardown (fst (teardown e nconcurr))"
  by (simp add: teardown_trace cleanup_def hclose_def)

text \<open>
  C7. Both calls of the stop handshake fail: \<^verbatim>\<open>main()\<close> reports each failure and goes on,
  releases the resources and calls \<^verbatim>\<open>exit(EXIT_SUCCESS)\<close>, which is 0.
\<close>

theorem stop_handshake_failure_not_fatal:
  "chsend_stop_rc env_stop_broken = Some (- 1) \<and> chrecv_stop_rc env_stop_broken = Some (- 1)
   \<and> main_run env_stop_broken ''u'' 1 1 5000 0 =
     ([Printf_banner ''u'' 1 1 5000, Chmake Done_ch, Chmake Stats_ch, Chmake Stop_ch, Time,
       Go_stats 0, Malloc 4, Go_boom 0 1, Chrecv Done_ch,
       Chsend Stop_ch (Int_msg 1), Perror ''Failed to send on stop_ch'',
       Chrecv Stop_ch, Perror ''Failed to receive on stop_ch'',
       Hclose (Boom_co 0), Hclose Stats_co, Hclose (Channel Done_ch),
       Hclose (Channel Stats_ch), Hclose (Channel Stop_ch), Free, Time, Printf_runtime],
      Some (Exit EXIT_SUCCESS))
   \<and> EXIT_SUCCESS = 0"
  by (simp add: main_defs env_ok_def env_stop_broken_def)

text \<open>
  C7, as the code has it. With a valid configuration, a failed \<^verbatim>\<open>chmake\<close>, a failed
  \<^verbatim>\<open>go\<close> of \<^verbatim>\<open>stats()\<close>, a failed \<^verbatim>\<open>malloc\<close>, a failed \<^verbatim>\<open>go\<close> of a worker and a failed
  receive on the completion channel are each reported with \<^verbatim>\<open>perror\<close> as the last thing
  the process does before \<^verbatim>\<open>exit(EXIT_FAILURE)\<close>, which is not 0. After the send of
  the stop request has returned, a failure is reported and the next call is the receive
  on the stop channel: while that receive does not return, nothing more happens; once it
  has returned, a failure is reported, the resources are released and the process ends
  with \<^verbatim>\<open>exit(EXIT_SUCCESS)\<close>, which is 0.
\<close>

theorem failures_fatal_except_in_stop_handshake:
  assumes "nreqs \<noteq> 0" and "nconcurr \<noteq> 0" and "nconcurr \<le> nreqs"
  shows
   "(chmake_ret e Done_ch < 0 \<or> chmake_ret e Stats_ch < 0 \<or> chmake_ret e Stop_ch < 0 \<longrightarrow>
       (\<exists>pre. main_run e url nreqs nconcurr t v =
          (pre @ [Perror ''Could not create channel''], Some (Exit EXIT_FAILURE))))
    \<and> (0 \<le> chmake_ret e Done_ch \<and> 0 \<le> chmake_ret e Stats_ch \<and> 0 \<le> chmake_ret e Stop_ch
        \<and> go_stats_ret e < 0 \<longrightarrow>
       (\<exists>pre. main_run e url nreqs nconcurr t v =
          (pre @ [Perror ''Could not start stats coroutine''], Some (Exit EXIT_FAILURE))))
    \<and> (0 \<le> chmake_ret e Done_ch \<and> 0 \<le> chmake_ret e Stats_ch \<and> 0 \<le> chmake_ret e Stop_ch
        \<and> 0 \<le> go_stats_ret e \<and> malloc_null e \<longrightarrow>
       (\<exists>pre. main_run e url nreqs nconcurr t v =
          (pre @ [Perror ''Could not allocate memory for coroutine handles''],
           Some (Exit EXIT_FAILURE))))
    \<and> (resources_ok e \<and> 0 \<le> j \<and> j < uint nconcurr \<and> j \<le> INT_MAX \<and> go_boom_ret e j < 0 \<longrightarrow>
       (\<exists>pre. main_run e url nreqs nconcurr t v =
          (pre @ [Perror ''Could not launch coroutine''], Some (Exit EXIT_FAILURE))))
    \<and> (resources_ok e \<and> uint nconcurr \<le> INT_MAX \<and> workers_ok e nconcurr
        \<and> 0 < k \<and> k \<le> uint nconcurr \<and> chrecv_done_rc e k = Some rc \<and> rc \<noteq> 0
        \<and> list_all (\<lambda>i. chrecv_done_rc e i = Some 0) [k + 1..uint nconcurr] \<longrightarrow>
       (\<exists>pre. main_run e url nreqs nconcurr t v =
          (pre @ [Perror ''Could not receive on done_ch''], Some (Exit EXIT_FAILURE))))
    \<and> (resources_ok e \<and> uint nconcurr \<le> INT_MAX \<and> workers_ok e nconcurr
        \<and> signals_ok e nconcurr
        \<and> chsend_stop_rc e = Some r1 \<and> chrecv_stop_rc e = None \<longrightarrow>
       main_run e url nreqs nconcurr t v =
         ([Printf_banner url nreqs nconcurr t, Chmake Done_ch, Chmake Stats_ch, Chmake Stop_ch,
           Time, Go_stats v, Malloc (unat nconcurr * 4)]
          @ map (\<lambda>i. Go_boom i (nreqs div nconcurr)) [0..uint nconcurr - 1]
          @ replicate (unat nconcurr) (Chrecv Done_ch)
          @ Chsend Stop_ch (Int_msg 1) # report r1 ''Failed to send on stop_ch''
          @ [Chrecv Stop_ch],
          Some Blocked))
    \<and> (resources_ok e \<and> uint nconcurr \<le> INT_MAX \<and> workers_ok e nconcurr
        \<and> signals_ok e nconcurr
        \<and> chsend_stop_rc e = Some r1 \<and> chrecv_stop_rc e = Some r2 \<longrightarrow>
       main_run e url nreqs nconcurr t v =
         ([Printf_banner url nreqs nconcurr t, Chmake Done_ch, Chmake Stats_ch, Chmake Stop_ch,
           Time, Go_stats v, Malloc (unat nconcurr * 4)]
          @ map (\<lambda>i. Go_boom i (nreqs div nconcurr)) [0..uint nconcurr - 1]
          @ replicate (unat nconcurr) (Chrecv Done_ch)
          @ Chsend Stop_ch (Int_msg 1) # report r1 ''Failed to send on stop_ch''
          @ Chrecv Stop_ch # report r2 ''Failed to receive on stop_ch''
          @ fst (teardown e nconcurr),
          Some (Exit EXIT_SUCCESS))
       \<and> list_ex is_teardown (fst (teardown e nconcurr)))
    \<and> EXIT_FAILURE \<noteq> 0 \<and> EXIT_SUCCESS = 0"
proof -
  let ?S = "startup e url nreqs nconcurr t v"
  let ?M = "main_run e url nreqs nconcurr t v"
  note sv = startup_valid[OF assms, of e url t v]
  have stop: "?M = ?S" if "snd ?S \<noteq> None"
    unfolding main_run_def using that by (rule andthen_stop)
  have 1: "\<exists>pre. ?M = (pre @ [Perror ''Could not create channel''], Some (Exit EXIT_FAILURE))"
    if "chmake_ret e Done_ch < 0 \<or> chmake_ret e Stats_ch < 0 \<or> chmake_ret e Stop_ch < 0"
  proof -
    from that have s: "?S = ([Printf_banner url nreqs nconcurr t, Chmake Done_ch,
        Chmake Stats_ch, Chmake Stop_ch] @ [Perror ''Could not create channel''],
        Some (Exit EXIT_FAILURE))"
      by (simp add: sv)
    then have "?M = ?S" by (intro stop) simp
    with s show ?thesis by metis
  qed
  have 2: "\<exists>pre. ?M = (pre @ [Perror ''Could not start stats coroutine''], Some (Exit EXIT_FAILURE))"
    if "0 \<le> chmake_ret e Done_ch \<and> 0 \<le> chmake_ret e Stats_ch \<and> 0 \<le> chmake_ret e Stop_ch
        \<and> go_stats_ret e < 0"
  proof -
    from that have s: "?S = ([Printf_banner url nreqs nconcurr t, Chmake Done_ch,
        Chmake Stats_ch, Chmake Stop_ch, Time, Go_stats v]
        @ [Perror ''Could not start stats coroutine''], Some (Exit EXIT_FAILURE))"
      by (simp add: sv not_less[symmetric])
    then have "?M = ?S" by (intro stop) simp
    with s show ?thesis by metis
  qed
  have 3: "\<exists>pre. ?M = (pre @ [Perror ''Could not allocate memory for coroutine handles''],
        Some (Exit EXIT_FAILURE))"
    if "0 \<le> chmake_ret e Done_ch \<and> 0 \<le> chmake_ret e Stats_ch \<and> 0 \<le> chmake_ret e Stop_ch
        \<and> 0 \<le> go_stats_ret e \<and> malloc_null e"
  proof -
    from that have s: "?S = ([Printf_banner url nreqs nconcurr t, Chmake Done_ch,
        Chmake Stats_ch, Chmake Stop_ch, Time, Go_stats v, Malloc (unat nconcurr * 4)]
        @ [Perror ''Could not allocate memory for coroutine handles''],
        Some (Exit EXIT_FAILURE))"
      by (simp add: sv not_less[symmetric])
    then have "?M = ?S" by (intro stop) simp
    with s show ?thesis by metis
  qed
  have 4: "\<exists>pre. ?M = (pre @ [Perror ''Could not launch coroutine''], Some (Exit EXIT_FAILURE))"
    if "resources_ok e \<and> 0 \<le> j \<and> j < uint nconcurr \<and> j \<le> INT_MAX \<and> go_boom_ret e j < 0"
  proof -
    from that launch_fails[of j nconcurr e "nreqs div nconcurr"] obtain pre where
      l: "for_up (launch_body e (nreqs div nconcurr)) nconcurr 0 =
          (pre @ [Perror ''Could not launch coroutine''], Some (Exit EXIT_FAILURE))"
      by blast
    from that have s: "?S = (([Printf_banner url nreqs nconcurr t, Chmake Done_ch,
        Chmake Stats_ch, Chmake Stop_ch, Time, Go_stats v, Malloc (unat nconcurr * 4)] @ pre)
        @ [Perror ''Could not launch coroutine''], Some (Exit EXIT_FAILURE))"
      by (simp add: sv l resources_ok_def not_less[symmetric])
    then have "?M = ?S" by (intro stop) simp
    with s show ?thesis by metis
  qed
  have 5: "\<exists>pre. ?M = (pre @ [Perror ''Could not receive on done_ch''], Some (Exit EXIT_FAILURE))"
    if h: "resources_ok e \<and> uint nconcurr \<le> INT_MAX \<and> workers_ok e nconcurr
        \<and> 0 < k \<and> k \<le> uint nconcurr \<and> chrecv_done_rc e k = Some rc \<and> rc \<noteq> 0
        \<and> list_all (\<lambda>i. chrecv_done_rc e i = Some 0) [k + 1..uint nconcurr]"
  proof -
    from h have c: "uint nconcurr \<le> INT_MAX" by simp
    from h assms have sn: "snd ?S = None" by (simp add: startup_None_iff)
    from h join_fails[OF c, of k e rc] obtain pre where
      j: "join_barrier e nconcurr =
          (pre @ [Perror ''Could not receive on done_ch''], Some (Exit EXIT_FAILURE))"
      by blast
    from sn have "?M = ((fst ?S @ pre) @ [Perror ''Could not receive on done_ch''],
        Some (Exit EXIT_FAILURE))"
      unfolding main_run_def by (simp add: andthen_cont j)
    then show ?thesis by metis
  qed
  have 6: "?M =
         ([Printf_banner url nreqs nconcurr t, Chmake Done_ch, Chmake Stats_ch, Chmake Stop_ch,
           Time, Go_stats v, Malloc (unat nconcurr * 4)]
          @ map (\<lambda>i. Go_boom i (nreqs div nconcurr)) [0..uint nconcurr - 1]
          @ replicate (unat nconcurr) (Chrecv Done_ch)
          @ Chsend Stop_ch (Int_msg 1) # report r1 ''Failed to send on stop_ch''
          @ Chrecv Stop_ch # report r2 ''Failed to receive on stop_ch''
          @ fst (teardown e nconcurr),
          Some (Exit EXIT_SUCCESS))
       \<and> list_ex is_teardown (fst (teardown e nconcurr))"
    if h: "resources_ok e \<and> uint nconcurr \<le> INT_MAX \<and> workers_ok e nconcurr
        \<and> signals_ok e nconcurr
        \<and> chsend_stop_rc e = Some r1 \<and> chrecv_stop_rc e = Some r2"
  proof -
    from h have c: "uint nconcurr \<le> INT_MAX" by simp
    from h assms have sn: "snd ?S = None" by (simp add: startup_None_iff)
    from h have j: "join_barrier e nconcurr = (replicate (unat nconcurr) (Chrecv Done_ch), None)"
      by (intro join_trace[OF c]) simp
    obtain tt where tt: "teardown e nconcurr = (tt, Some (Exit EXIT_SUCCESS))"
      using teardown_exit[OF c, of e] by (cases "teardown e nconcurr") auto
    from h sn have "?M =
         (fst ?S @ replicate (unat nconcurr) (Chrecv Done_ch)
          @ Chsend Stop_ch (Int_msg 1) # report r1 ''Failed to send on stop_ch''
          @ Chrecv Stop_ch # report r2 ''Failed to receive on stop_ch''
          @ fst (teardown e nconcurr),
          Some (Exit EXIT_SUCCESS))"
      unfolding main_run_def by (simp add: andthen_cont j stop_handshake_def tt)
    then have "?M =
         ([Printf_banner url nreqs nconcurr t, Chmake Done_ch, Chmake Stats_ch, Chmake Stop_ch,
           Time, Go_stats v, Malloc (unat nconcurr * 4)]
          @ map (\<lambda>i. Go_boom i (nreqs div nconcurr)) [0..uint nconcurr - 1]
          @ replicate (unat nconcurr) (Chrecv Done_ch)
          @ Chsend Stop_ch (Int_msg 1) # report r1 ''Failed to send on stop_ch''
          @ Chrecv Stop_ch # report r2 ''Failed to receive on stop_ch''
          @ fst (teardown e nconcurr),
          Some (Exit EXIT_SUCCESS))"
      by (simp add: startup_trace[OF sn])
    with teardown_releases[OF c, of e] show ?thesis by simp
  qed
  have blocked: "?M =
         ([Printf_banner url nreqs nconcurr t, Chmake Done_ch, Chmake Stats_ch, Chmake Stop_ch,
           Time, Go_stats v, Malloc (unat nconcurr * 4)]
          @ map (\<lambda>i. Go_boom i (nreqs div nconcurr)) [0..uint nconcurr - 1]
          @ replicate (unat nconcurr) (Chrecv Done_ch)
          @ Chsend Stop_ch (Int_msg 1) # report r1 ''Failed to send on stop_ch''
          @ [Chrecv Stop_ch],
          Some Blocked)"
    if h: "resources_ok e \<and> uint nconcurr \<le> INT_MAX \<and> workers_ok e nconcurr
        \<and> signals_ok e nconcurr
        \<and> chsend_stop_rc e = Some r1 \<and> chrecv_stop_rc e = None"
  proof -
    from h have c: "uint nconcurr \<le> INT_MAX" by simp
    from h assms have sn: "snd ?S = None" by (simp add: startup_None_iff)
    from h have j: "join_barrier e nconcurr = (replicate (unat nconcurr) (Chrecv Done_ch), None)"
      by (intro join_trace[OF c]) simp
    from h sn have "?M =
         (fst ?S @ replicate (unat nconcurr) (Chrecv Done_ch)
          @ Chsend Stop_ch (Int_msg 1) # report r1 ''Failed to send on stop_ch''
          @ [Chrecv Stop_ch],
          Some Blocked)"
      unfolding main_run_def by (simp add: andthen_cont j stop_handshake_def)
    then show ?thesis by (simp add: startup_trace[OF sn])
  qed
  have 7: "EXIT_FAILURE \<noteq> 0 \<and> EXIT_SUCCESS = 0"
    by (simp add: EXIT_FAILURE_def EXIT_SUCCESS_def)
  from 1 2 3 4 5 blocked 6 7 show ?thesis by blast
qed

theorem failures_fatal_except_in_stop_handshake_witness:
  "(10 :: uint) \<noteq> 0 \<and> (3 :: uint) \<noteq> 0 \<and> (3 :: uint) \<le> 10
   \<and> main_run (env_ok\<lparr>chmake_ret := (\<lambda>c. if c = Stats_ch then - 1 else 3)\<rparr>) ''u'' 10 3 5000 0 =
       ([Printf_banner ''u'' 10 3 5000, Chmake Done_ch, Chmake Stats_ch, Chmake Stop_ch,
         Perror ''Could not create channel''], Some (Exit EXIT_FAILURE))
   \<and> main_run (env_ok\<lparr>go_stats_ret := - 1\<rparr>) ''u'' 10 3 5000 0 =
       ([Printf_banner ''u'' 10 3 5000, Chmake Done_ch, Chmake Stats_ch, Chmake Stop_ch,
         Time, Go_stats 0, Perror ''Could not start stats coroutine''], Some (Exit EXIT_FAILURE))
   \<and> main_run (env_ok\<lparr>malloc_null := True\<rparr>) ''u'' 10 3 5000 0 =
       ([Printf_banner ''u'' 10 3 5000, Chmake Done_ch, Chmake Stats_ch, Chmake Stop_ch,
         Time, Go_stats 0, Malloc 12, Perror ''Could not allocate memory for coroutine handles''],
        Some (Exit EXIT_FAILURE))
   \<and> main_run (env_ok\<lparr>go_boom_ret := (\<lambda>i. if i = 1 then - 1 else 5)\<rparr>) ''u'' 10 3 5000 0 =
       ([Printf_banner ''u'' 10 3 5000, Chmake Done_ch, Chmake Stats_ch, Chmake Stop_ch,
         Time, Go_stats 0, Malloc 12, Go_boom 0 3, Go_boom 1 3,
         Perror ''Could not launch coroutine''], Some (Exit EXIT_FAILURE))
   \<and> main_run (env_ok\<lparr>chrecv_done_rc := (\<lambda>i. if i = 2 then Some (- 1) else Some 0)\<rparr>)
        ''u'' 10 3 5000 0 =
       ([Printf_banner ''u'' 10 3 5000, Chmake Done_ch, Chmake Stats_ch, Chmake Stop_ch,
         Time, Go_stats 0, Malloc 12, Go_boom 0 3, Go_boom 1 3, Go_boom 2 3,
         Chrecv Done_ch, Chrecv Done_ch, Perror ''Could not receive on done_ch''],
        Some (Exit EXIT_FAILURE))
   \<and> main_run (env_ok\<lparr>chsend_stop_rc := Some (- 1), chrecv_stop_rc := None\<rparr>) ''u'' 10 3 5000 0 =
       ([Printf_banner ''u'' 10 3 5000, Chmake Done_ch, Chmake Stats_ch, Chmake Stop_ch,
         Time, Go_stats 0, Malloc 12, Go_boom 0 3, Go_boom 1 3, Go_boom 2 3,
         Chrecv Done_ch, Chrecv Done_ch, Chrecv Done_ch,
         Chsend Stop_ch (Int_msg 1), Perror ''Failed to send on stop_ch'', Chrecv Stop_ch],
        Some Blocked)
   \<and> snd (main_run env_stop_broken ''u'' 10 3 5000 0) = Some (Exit EXIT_SUCCESS)
   \<and> Perror ''Failed to send on stop_ch'' \<in> set (fst (main_run env_stop_broken ''u'' 10 3 5000 0))"
  using
    failures_fatal_except_in_stop_handshake [of 10 3
      "env_ok\<lparr>chmake_ret := (\<lambda>c. if c = Stats_ch then - 1 else 3)\<rparr>" "''u''" 5000 0]
    failures_fatal_except_in_stop_handshake [of 10 3 "env_ok\<lparr>go_stats_ret := - 1\<rparr>" "''u''" 5000 0]
    failures_fatal_except_in_stop_handshake [of 10 3 "env_ok\<lparr>malloc_null := True\<rparr>" "''u''" 5000 0]
    failures_fatal_except_in_stop_handshake [of 10 3
      "env_ok\<lparr>go_boom_ret := (\<lambda>i. if i = 1 then - 1 else 5)\<rparr>" "''u''" 5000 0 1]
    failures_fatal_except_in_stop_handshake [of 10 3
      "env_ok\<lparr>chrecv_done_rc := (\<lambda>i. if i = 2 then Some (- 1) else Some 0)\<rparr>" "''u''" 5000 0 0 2 "- 1"]
    failures_fatal_except_in_stop_handshake [of 10 3
      "env_ok\<lparr>chsend_stop_rc := Some (- 1), chrecv_stop_rc := None\<rparr>" "''u''" 5000 0 0 0 0 "- 1"]
    failures_fatal_except_in_stop_handshake [of 10 3 env_stop_broken "''u''" 5000 0 0 0 0 "- 1" "- 1"]
  by (simp add: main_defs env_ok_def env_stop_broken_def resources_ok_def workers_ok_def
      signals_ok_def upto.simps)

section \<open>Attempts of a run\<close>

subsection \<open>The workers of a run\<close>

lemma launched_append: "launched (xs @ ys) = launched xs @ launched ys"
  by (induction xs rule: launched.induct) auto

lemma launched_none: "(\<And>i n. Go_boom i n \<notin> set ys) \<Longrightarrow> launched ys = []"
  by (induction ys rule: launched.induct) auto

lemma launched_Go_boom: "launched (map (\<lambda>i. Go_boom i n) js) = map (\<lambda>i. (i, n)) js"
  by (induction js) auto

lemma launched_after_startup:
  assumes "snd (startup e url nreqs nconcurr t v) = None"
  shows "launched (fst (main_run e url nreqs nconcurr t v)) =
    map (\<lambda>i. (i, nreqs div nconcurr)) [0..uint nconcurr - 1]"
proof -
  let ?S = "fst (startup e url nreqs nconcurr t v)"
  have S: "launched ?S = map (\<lambda>i. (i, nreqs div nconcurr)) [0..uint nconcurr - 1]"
    by (simp add: startup_trace[OF assms] launched_append launched_Go_boom)
  have J: "launched (fst (join_barrier e nconcurr)) = []"
    by (rule launched_none) (auto dest: join_not)
  have T: "launched (fst (teardown e nconcurr)) = []"
    by (rule launched_none) (auto dest: teardown_not)
  have R: "\<And>rc m. launched (report rc m) = []"
    by (simp add: report_def)
  show ?thesis
    using assms
    by (cases rule: main_run_cases[of e url nreqs nconcurr t v])
      (simp_all add: launched_append S J T R)
qed

text \<open>
  C1. \<^verbatim>\<open>dboom -n -1 -c 1\<close>: the request count is 4294967295 and the concurrency 1, the one
  worker is given the count 4294967295, the run ends with \<^verbatim>\<open>exit(EXIT_SUCCESS)\<close>, and no
  request is attempted, where \<open>C * floor(N / C)\<close> is 4294967295.
\<close>

theorem large_share_is_never_attempted:
  "getRequests (Some ''-1'') = 4294967295 \<and> getConcurrentReqs (Some ''1'') = 1
   \<and> main env_ok \<lparr>opt_n = Some ''-1'', opt_c = Some ''1'', opt_t = None, opt_v = 0,
                   opt_unknown = False, opt_url = Some ''u''\<rparr> =
     ([Printf_banner ''u'' 4294967295 1 5000, Chmake Done_ch, Chmake Stats_ch, Chmake Stop_ch,
       Time, Go_stats 0, Malloc 4, Go_boom 0 4294967295, Chrecv Done_ch,
       Chsend Stop_ch (Int_msg 1), Chrecv Stop_ch, Hclose (Boom_co 0), Hclose Stats_co,
       Hclose (Channel Done_ch), Hclose (Channel Stats_ch), Hclose (Channel Stop_ch),
       Free, Time, Printf_runtime],
      Some (Exit EXIT_SUCCESS))
   \<and> run_attempts envs ''u'' 5000
       (fst (main env_ok \<lparr>opt_n = Some ''-1'', opt_c = Some ''1'', opt_t = None, opt_v = 0,
                          opt_unknown = False, opt_url = Some ''u''\<rparr>)) = 0
   \<and> unat (1 :: uint) * (unat (4294967295 :: uint) div unat (1 :: uint)) = 4294967295"
proof -
  have m: "main env_ok \<lparr>opt_n = Some ''-1'', opt_c = Some ''1'', opt_t = None, opt_v = 0,
                   opt_unknown = False, opt_url = Some ''u''\<rparr> =
     ([Printf_banner ''u'' 4294967295 1 5000, Chmake Done_ch, Chmake Stats_ch, Chmake Stop_ch,
       Time, Go_stats 0, Malloc 4, Go_boom 0 4294967295, Chrecv Done_ch,
       Chsend Stop_ch (Int_msg 1), Chrecv Stop_ch, Hclose (Boom_co 0), Hclose Stats_co,
       Hclose (Channel Done_ch), Hclose (Channel Stats_ch), Hclose (Channel Stop_ch),
       Free, Time, Printf_runtime],
      Some (Exit EXIT_SUCCESS))"
    by (simp add: args_defs main_defs env_ok_def)
  have g: "getRequests (Some ''-1'') = 4294967295 \<and> getConcurrentReqs (Some ''1'') = 1"
    by (simp add: args_defs)
  have a: "attempts (fst (boom (envs 0) ''u'' 4294967295 5000)) = 0"
    by (simp add: boom_attempts)
  show ?thesis
    unfolding m using g a by (simp add: run_attempts_def)
qed

text \<open>
  With a valid configuration, all resources and workers obtained, and the share
  \<open>floor(N / C)\<close> below \<open>2 ^ 31\<close>, the run launches \<open>C\<close> workers, each given the share,
  and the attempts of the run are \<open>C * floor(N / C)\<close>: the remainder is left out.
\<close>

theorem attempts_are_workers_times_share:
  assumes "nreqs \<noteq> 0" and "nconcurr \<noteq> 0" and "nconcurr \<le> nreqs"
    and "resources_ok e" and "uint nconcurr \<le> INT_MAX" and "workers_ok e nconcurr"
    and "nreqs div nconcurr < 2147483648"
  shows "launched (fst (main_run e url nreqs nconcurr t v)) =
      map (\<lambda>i. (i, nreqs div nconcurr)) [0..uint nconcurr - 1]
    \<and> run_attempts envs url t (fst (main_run e url nreqs nconcurr t v)) =
        unat nconcurr * (unat nreqs div unat nconcurr)
    \<and> unat nconcurr * (unat nreqs div unat nconcurr) + unat nreqs mod unat nconcurr = unat nreqs"
proof -
  have "snd (startup e url nreqs nconcurr t v) = None"
    using assms(1-6) by (simp add: startup_None_iff)
  note l = launched_after_startup[OF this]
  have s: "sint (nreqs div nconcurr) = int (unat nreqs div unat nconcurr)"
    using sint_small[OF assms(7)] by (simp add: unat_div)
  have "run_attempts envs url t (fst (main_run e url nreqs nconcurr t v)) =
      sum_list (map (\<lambda>i. unat nreqs div unat nconcurr) [0..uint nconcurr - 1])"
    by (simp add: run_attempts_def l boom_attempts s comp_def)
  also have "\<dots> = unat nconcurr * (unat nreqs div unat nconcurr)"
    by (simp add: sum_list_triv)
  finally show ?thesis using l by simp
qed

theorem attempts_are_workers_times_share_witness:
  "launched (fst (main_run env_ok ''u'' 10 3 5000 0)) = [(0, 3), (1, 3), (2, 3)]
   \<and> run_attempts (\<lambda>i. boom_env_ok) ''u'' 5000 (fst (main_run env_ok ''u'' 10 3 5000 0)) = 9"
  using attempts_are_workers_times_share
      [where nreqs = 10 and nconcurr = 3 and e = env_ok and envs = "\<lambda>i. boom_env_ok"
         and url = "''u''" and t = 5000 and v = 0]
  by (simp add: main_defs env_ok_def resources_ok_def workers_ok_def upto.simps)

end
